theory Spec2Isabelle
  imports Main "HOL-Library.Word" "HOL-Library.Sublist"
begin

unbundle bit_operations_syntax

section \<open>Config.h: the static function tables\<close>

text \<open>
  \<^verbatim>\<open>int8_t\<close> is an 8-bit word; \<^verbatim>\<open>make_pair(-1, 0)\<close> stores the word \<open>- 1\<close>
  (read back as \<open>-1\<close> by \<open>sint\<close>).
\<close>

type_synonym int8_t = "8 word"

subsection \<open>SetCopyFuncs\<close>

text \<open>
  \<^verbatim>\<open>map<string, tuple<int8_t, int8_t, int8_t>> &CopyFuncs\<close> is taken by reference and
  nine keys are assigned; the model returns the updated map. The assignments are kept in
  source order.
\<close>

definition SetCopyFuncs ::
  "(string \<rightharpoonup> int8_t \<times> int8_t \<times> int8_t) \<Rightarrow> (string \<rightharpoonup> int8_t \<times> int8_t \<times> int8_t)" where
  "SetCopyFuncs CopyFuncs =
     CopyFuncs
       (''memcpy'' \<mapsto> (1, 0, 2),
        ''__memcpy'' \<mapsto> (1, 0, 2),
        ''llvm.memcpy.p0i8.p0i8.i32'' \<mapsto> (1, 0, 2),
        ''llvm.memcpy.p0i8.p0i8.i64'' \<mapsto> (1, 0, 2),
        ''strncpy'' \<mapsto> (1, 0, 2),
        ''memmove'' \<mapsto> (1, 0, 2),
        ''__memmove'' \<mapsto> (1, 0, 2),
        ''llvm.memmove.p0i8.p0i8.i32'' \<mapsto> (1, 0, 2),
        ''llvm.memmove.p0i8.p0i8.i64'' \<mapsto> (1, 0, 2))"

text \<open>The nine names the function registers, in source order.\<close>

definition CopyFuncNames :: "string list" where
  "CopyFuncNames =
     [''memcpy'', ''__memcpy'', ''llvm.memcpy.p0i8.p0i8.i32'', ''llvm.memcpy.p0i8.p0i8.i64'',
      ''strncpy'', ''memmove'', ''__memmove'', ''llvm.memmove.p0i8.p0i8.i32'',
      ''llvm.memmove.p0i8.p0i8.i64'']"

text \<open>
  The argument positions an entry stands for. The parameter of \<^verbatim>\<open>SetCopyFuncs\<close> carries
  the comment \<^verbatim>\<open>// <src, dst, size>\<close>: the first component is the source argument, the
  second the destination argument, the third the size argument.
\<close>

record copy_args =
  dst_arg :: int8_t
  src_arg :: int8_t
  size_arg :: int8_t

definition read_src_dst_size :: "int8_t \<times> int8_t \<times> int8_t \<Rightarrow> copy_args" where
  "read_src_dst_size t = \<lparr>dst_arg = fst (snd t), src_arg = fst t, size_arg = snd (snd t)\<rparr>"

text \<open>
  The reading of the specification, which lists the positions as
  (dst-arg, src-arg, size-arg): first component the destination, second the source.
\<close>

definition read_dst_src_size :: "int8_t \<times> int8_t \<times> int8_t \<Rightarrow> copy_args" where
  "read_dst_src_size t = \<lparr>dst_arg = fst t, src_arg = fst (snd t), size_arg = snd (snd t)\<rparr>"

subsection \<open>SetDataFetchFuncs\<close>

definition SetDataFetchFuncs ::
  "(string \<rightharpoonup> int8_t \<times> int8_t) \<Rightarrow> (string \<rightharpoonup> int8_t \<times> int8_t)" where
  "SetDataFetchFuncs DataFetchFuncs =
     DataFetchFuncs
       (''copy_from_user'' \<mapsto> (0, 1),
        ''_copy_from_user'' \<mapsto> (0, 1),
        ''__copy_from_user'' \<mapsto> (0, 1),
        ''raw_copy_from_user'' \<mapsto> (0, 1),
        ''strncpy_from_user'' \<mapsto> (0, 1),
        ''_strncpy_from_user'' \<mapsto> (0, 1),
        ''__strncpy_from_user'' \<mapsto> (0, 1),
        ''__copy_from_user_inatomic'' \<mapsto> (0, 1),
        ''strndup_user'' \<mapsto> (- 1, 0),
        ''memdup_user'' \<mapsto> (- 1, 0),
        ''vmemdup_user'' \<mapsto> (- 1, 0),
        ''memdup_user_nul'' \<mapsto> (- 1, 0),
        ''get_user'' \<mapsto> (0, 1),
        ''__get_user'' \<mapsto> (0, 1),
        ''copyin'' \<mapsto> (1, 0),
        ''copyin_str'' \<mapsto> (1, 0),
        ''copyin_nofault'' \<mapsto> (1, 0),
        ''fubyte'' \<mapsto> (- 1, 0),
        ''fusword'' \<mapsto> (- 1, 0),
        ''fuswintr'' \<mapsto> (- 1, 0),
        ''fuword'' \<mapsto> (- 1, 0),
        ''rds_message_copy_from_user'' \<mapsto> (0, 1),
        ''ivtv_buf_copy_from_user'' \<mapsto> (0, 1),
        ''snd_trident_synth_copy_from_user'' \<mapsto> (0, 1),
        ''copy_from_user_toio'' \<mapsto> (0, 1),
        ''iov_iter_copy_from_user_atomic'' \<mapsto> (0, 1),
        ''__generic_copy_from_user'' \<mapsto> (0, 1),
        ''__constant_copy_from_user'' \<mapsto> (0, 1),
        ''copy_from_user_page'' \<mapsto> (0, 1),
        ''__copy_from_user_eva'' \<mapsto> (0, 1),
        ''__arch_copy_from_user'' \<mapsto> (0, 1),
        ''__copy_from_user_flushcache'' \<mapsto> (0, 1),
        ''arm_copy_from_user'' \<mapsto> (0, 1),
        ''__asm_copy_from_user'' \<mapsto> (0, 1),
        ''__copy_from_user_inatomic_nocache'' \<mapsto> (0, 1),
        ''copy_from_user_nmi'' \<mapsto> (0, 1),
        ''copy_from_user_proc'' \<mapsto> (0, 1))"

subsection \<open>SetErrorHandleFuncs\<close>

text \<open>
  The file system is a partial map from a path to the bytes of the file: \<open>None\<close> is a
  file that \<^verbatim>\<open>ifstream\<close> cannot open (\<^verbatim>\<open>is_open()\<close> false). A read error on an open
  file is outside this model.
\<close>

type_synonym filesystem = "string \<rightharpoonup> string"

definition newline :: char where
  "newline = CHR 0x0A"

text \<open>
  \<^verbatim>\<open>exepath.find_last_of('/')\<close>: the index of the last occurrence, \<open>None\<close> for
  \<^verbatim>\<open>npos\<close>.
\<close>

fun find_last_of :: "char \<Rightarrow> string \<Rightarrow> nat option" where
  "find_last_of c [] = None"
| "find_last_of c (x # xs) =
     (case find_last_of c xs of
        Some k \<Rightarrow> Some (Suc k)
      | None \<Rightarrow> if x = c then Some 0 else None)"

text \<open>
  \<^verbatim>\<open>exepath.substr(0, pos)\<close>: the first \<open>pos\<close> characters, the whole string for
  \<^verbatim>\<open>npos\<close>.
\<close>

definition exedir_of :: "string \<Rightarrow> string" where
  "exedir_of exepath =
     (case find_last_of CHR ''/'' exepath of
        Some k \<Rightarrow> take k exepath
      | None \<Rightarrow> exepath)"

text \<open>
  \<^verbatim>\<open>getline(errfile, line)\<close> on the unread rest of the stream: the characters up to
  the next newline become the line, the newline is consumed and not stored. With no
  newline left, the line is everything that remains and the stream is at end of file.
  The result is the line, the new unread rest, and the \<^verbatim>\<open>eof()\<close> flag.
\<close>

definition getline :: "string \<Rightarrow> string \<times> string \<times> bool" where
  "getline rest =
     (if newline \<in> set rest
      then (takeWhile (\<lambda>c. c \<noteq> newline) rest, tl (dropWhile (\<lambda>c. c \<noteq> newline) rest), False)
      else (rest, [], True))"

text \<open>
  \<^verbatim>\<open>while (!errfile.eof()) { getline(errfile, line); if (line.length() > 1) insert }\<close>.
  The stream is not at end of file when it is opened, so the body runs at least once.
\<close>

function read_err_lines :: "string \<Rightarrow> string set \<Rightarrow> string set" where
  "read_err_lines rest ErrorHandleFuncs =
     (case getline rest of
        (line, rest', eof) \<Rightarrow>
          let ErrorHandleFuncs' =
                (if length line > 1 then insert line ErrorHandleFuncs else ErrorHandleFuncs)
          in if eof then ErrorHandleFuncs' else read_err_lines rest' ErrorHandleFuncs')"
  by pat_completeness auto

termination
proof (relation "measure (\<lambda>(rest, S). length rest)")
  show "wf (measure (\<lambda>(rest, S). length rest))"
    by simp
next
  fix rest :: string and ErrorHandleFuncs :: "string set" and x line y rest' eof S'
  assume g: "(line, y) = getline rest" "(rest', eof) = y" and ne: "\<not> eof"
  from g have "getline rest = (line, rest', eof)"
    by simp
  with ne have nl: "newline \<in> set rest" and r: "rest' = tl (dropWhile (\<lambda>c. c \<noteq> newline) rest)"
    by (auto simp: getline_def split: if_splits)
  from nl have "rest \<noteq> []"
    by auto
  moreover have "length (dropWhile (\<lambda>c. c \<noteq> newline) rest) \<le> length rest"
    by (rule length_dropWhile_le)
  moreover from nl have "dropWhile (\<lambda>c. c \<noteq> newline) rest \<noteq> []"
    by (simp add: dropWhile_eq_Nil_conv)
  ultimately have "length rest' < length rest"
    using r by (cases "dropWhile (\<lambda>c. c \<noteq> newline) rest") auto
  then show "((rest', S'), (rest, ErrorHandleFuncs)) \<in> measure (\<lambda>(rest, S). length rest)"
    by simp
qed

declare read_err_lines.simps [simp del]

text \<open>The built-in array \<^verbatim>\<open>ErrorHandleFN\<close>, in source order.\<close>

definition ErrorHandleFN :: "string list" where
  "ErrorHandleFN =
     [''BUG'', ''BUG_ON'', ''ASM_BUG'', ''panic'', ''ASSERT'', ''assert'', ''dump_stack'',
      ''__warn_printk'', ''usercopy_warn'', ''signal_fault'', ''pr_err'', ''pr_warn'',
      ''pr_warning'', ''pr_alert'', ''pr_emerg'', ''pr_crit'']"

text \<open>
  \<^verbatim>\<open>SetErrorHandleFuncs(set<string> &ErrorHandleFuncs)\<close>. The path of the executable
  (\<^verbatim>\<open>getMainExecutable\<close>) and the file system are inputs of the model.
\<close>

definition SetErrorHandleFuncs :: "filesystem \<Rightarrow> string \<Rightarrow> string set \<Rightarrow> string set" where
  "SetErrorHandleFuncs fs exepath ErrorHandleFuncs =
     (let exedir = exedir_of exepath;
          from_file =
            (case fs (exedir @ ''/configs/err-funcs'') of
               Some content \<Rightarrow> read_err_lines content ErrorHandleFuncs
             | None \<Rightarrow> ErrorHandleFuncs)
      in fold insert ErrorHandleFN from_file)"

text \<open>
  The lines of a newline-delimited text, as the specification speaks of them: the pieces
  between newlines, the piece after the last newline included.
\<close>

fun lines_of :: "string \<Rightarrow> string list" where
  "lines_of [] = [[]]"
| "lines_of (c # cs) =
     (if c = newline then [] # lines_of cs
      else (case lines_of cs of l # ls \<Rightarrow> (c # l) # ls | [] \<Rightarrow> [[c]]))"

section \<open>Analyzer.cc: the driver\<close>

subsection \<open>The global context and the diagnostic stream\<close>

text \<open>
  Modelled from the spec: the declaration of \<^verbatim>\<open>GlobalContext\<close> (Analyzer.h) is missing.
  The record has the members that the code under src reads and writes, with the types
  that \<^verbatim>\<open>Config.h\<close> and \<^verbatim>\<open>main\<close> give them; the two counters are the total counts of
  the specification, natural numbers. Every other member, and the static members of the
  passes, live in the extension slot of the record. A module (\<^verbatim>\<open>Module *\<close>) is a value
  of the type parameter \<open>'m\<close>.
\<close>

record 'm GlobalContext =
  Modules :: "('m \<times> string) list"
  ModuleMaps :: "'m \<rightharpoonup> string"
  ErrorHandleFuncs :: "string set"
  CopyFuncs :: "string \<rightharpoonup> int8_t \<times> int8_t \<times> int8_t"
  DataFetchFuncs :: "string \<rightharpoonup> int8_t \<times> int8_t"
  NumSecurityChecks :: nat
  NumCondStatements :: nat

text \<open>
  \<^verbatim>\<open>OP\<close> is a write-only stream. The model keeps what the driver itself inserts, one
  token for each \<^verbatim>\<open><<\<close>: a string or a number. What the hooks of a pass print is part
  of their own state.
\<close>

datatype token = Str string | Num nat

text \<open>\<^verbatim>\<open>LoadStaticData(GlobalContext *GCtx)\<close>.\<close>

definition LoadStaticData ::
  "filesystem \<Rightarrow> string \<Rightarrow> ('m, 'z) GlobalContext_scheme \<Rightarrow> ('m, 'z) GlobalContext_scheme" where
  "LoadStaticData fs exepath GCtx =
     (let GCtx1 = GCtx\<lparr>ErrorHandleFuncs := SetErrorHandleFuncs fs exepath (ErrorHandleFuncs GCtx)\<rparr>;
          GCtx2 = GCtx1\<lparr>CopyFuncs := SetCopyFuncs (CopyFuncs GCtx1)\<rparr>
      in GCtx2\<lparr>DataFetchFuncs := SetDataFetchFuncs (DataFetchFuncs GCtx2)\<rparr>)"

text \<open>
  The global \<^verbatim>\<open>GlobalContext GlobalCtx;\<close> when \<^verbatim>\<open>main\<close> starts: the containers are
  default-constructed, hence empty, and the counters are zero.
\<close>

definition GlobalCtx_init :: "'m GlobalContext" where
  "GlobalCtx_init =
     \<lparr>Modules = [], ModuleMaps = Map.empty, ErrorHandleFuncs = {}, CopyFuncs = Map.empty,
      DataFetchFuncs = Map.empty, NumSecurityChecks = 0, NumCondStatements = 0\<rparr>"


subsection \<open>IterativeModulePass::run\<close>

text \<open>
  A pass is its identifier and its three virtual hooks. A hook takes a module, may change
  the analysis state \<open>'s\<close>, and reports whether something changed.
\<close>

record ('m, 's) IterativeModulePass =
  ID :: string
  doInitialization :: "'m \<Rightarrow> 's \<Rightarrow> bool \<times> 's"
  doModulePass :: "'m \<Rightarrow> 's \<Rightarrow> bool \<times> 's"
  doFinalization :: "'m \<Rightarrow> 's \<Rightarrow> bool \<times> 's"

type_synonym unsigned = "32 word"

text \<open>
  The \<^verbatim>\<open>for\<close> loop of the first phase:
  \<^verbatim>\<open>again |= doInitialization(i->first); OP << ".";\<close>. The hook is called for every
  module, whatever \<^verbatim>\<open>again\<close> holds.
\<close>

fun init_sweep ::
  "('m \<Rightarrow> 's \<Rightarrow> bool \<times> 's) \<Rightarrow> ('m \<times> string) list \<Rightarrow> bool \<Rightarrow> 's \<times> token list
     \<Rightarrow> bool \<times> 's \<times> token list" where
  "init_sweep doInit [] again (s, OP) = (again, s, OP)"
| "init_sweep doInit ((M, MName) # modules) again (s, OP) =
     (case doInit M s of
        (r, s') \<Rightarrow> init_sweep doInit modules (again \<or> r) (s', OP @ [Str ''.'']))"

text \<open>\<^verbatim>\<open>while (again) { again = false; for (...) ... }\<close>\<close>

partial_function (option) init_loop ::
  "('m \<Rightarrow> 's \<Rightarrow> bool \<times> 's) \<Rightarrow> ('m \<times> string) list \<Rightarrow> bool \<Rightarrow> 's \<times> token list
     \<Rightarrow> ('s \<times> token list) option" where
  "init_loop doInit modules again st =
     (if again
      then (case init_sweep doInit modules False st of
              (again', st') \<Rightarrow> init_loop doInit modules again' st')
      else Some st)"

text \<open>
  The \<^verbatim>\<open>for\<close> loop of the second phase. \<^verbatim>\<open>iter\<close>, \<^verbatim>\<open>changed\<close>,
  \<^verbatim>\<open>counter_modules\<close> and \<^verbatim>\<open>total_modules\<close> are \<^verbatim>\<open>unsigned\<close>: 32-bit words, and
  \<^verbatim>\<open>++\<close> wraps.
\<close>

fun pass_sweep ::
  "('m, 's) IterativeModulePass \<Rightarrow> unsigned \<Rightarrow> unsigned \<Rightarrow> ('m \<times> string) list
     \<Rightarrow> unsigned \<Rightarrow> unsigned \<Rightarrow> 's \<times> token list \<Rightarrow> unsigned \<times> 's \<times> token list" where
  "pass_sweep P iter total_modules [] counter_modules changed (s, OP) = (changed, s, OP)"
| "pass_sweep P iter total_modules ((M, MName) # modules) counter_modules changed (s, OP) =
     (let counter_modules' = counter_modules + 1;
          OP1 = OP @ [Str ''['', Str (ID P), Str '' / '', Num (unat iter), Str ''] '']
                   @ [Str ''['', Num (unat counter_modules'), Str '' / '',
                      Num (unat total_modules), Str ''] '']
                   @ [Str ''['', Str MName, Str '']\<newline>'']
      in case doModulePass P M s of
           (ret, s') \<Rightarrow>
             if ret
             then pass_sweep P iter total_modules modules counter_modules' (changed + 1)
                    (s', OP1 @ [Str ([CHR 0x09] @ '' [CHANGED]\<newline>'')])
             else pass_sweep P iter total_modules modules counter_modules' changed
                    (s', OP1 @ [Str ''\<newline>'']))"

text \<open>
  \<^verbatim>\<open>while (changed) { ++iter; changed = 0; ... for (...) ...; OP << ... }\<close>, entered
  with \<^verbatim>\<open>iter = 0, changed = 1\<close>.
\<close>

partial_function (option) pass_loop ::
  "('m, 's) IterativeModulePass \<Rightarrow> ('m \<times> string) list \<Rightarrow> unsigned \<Rightarrow> unsigned
     \<Rightarrow> 's \<times> token list \<Rightarrow> ('s \<times> token list) option" where
  "pass_loop P modules iter changed st =
     (if changed \<noteq> 0
      then (case pass_sweep P (iter + 1) (of_nat (length modules)) modules 0 0 st of
              (changed', s', OP') \<Rightarrow>
                pass_loop P modules (iter + 1) changed'
                  (s', OP' @ [Str ''['', Str (ID P), Str ''] Updated in '', Num (unat changed'),
                              Str '' modules.\<newline>'']))
      else Some st)"

text \<open>The \<^verbatim>\<open>for\<close> loop of the third phase: \<^verbatim>\<open>again |= doFinalization(i->first);\<close>\<close>

fun fin_sweep ::
  "('m \<Rightarrow> 's \<Rightarrow> bool \<times> 's) \<Rightarrow> ('m \<times> string) list \<Rightarrow> bool \<Rightarrow> 's \<Rightarrow> bool \<times> 's" where
  "fin_sweep doFin [] again s = (again, s)"
| "fin_sweep doFin ((M, MName) # modules) again s =
     (case doFin M s of (r, s') \<Rightarrow> fin_sweep doFin modules (again \<or> r) s')"

partial_function (option) fin_loop ::
  "('m \<Rightarrow> 's \<Rightarrow> bool \<times> 's) \<Rightarrow> ('m \<times> string) list \<Rightarrow> bool \<Rightarrow> 's \<Rightarrow> 's option" where
  "fin_loop doFin modules again s =
     (if again
      then (case fin_sweep doFin modules False s of
              (again', s') \<Rightarrow> fin_loop doFin modules again' s')
      else Some s)"

declare init_loop.simps [code] pass_loop.simps [code] fin_loop.simps [code]

text \<open>
  \<^verbatim>\<open>void IterativeModulePass::run(ModuleList &modules)\<close>. A loop that never ends makes
  the result \<open>None\<close>. The third phase inserts nothing into \<^verbatim>\<open>OP\<close>, so its loop
  carries the analysis state only.
\<close>

definition run ::
  "('m, 's) IterativeModulePass \<Rightarrow> ('m \<times> string) list \<Rightarrow> 's \<times> token list
     \<Rightarrow> ('s \<times> token list) option" where
  "run P modules st =
     (case st of
        (s, OP) \<Rightarrow>
          Option.bind
            (init_loop (doInitialization P) modules True
               (s, OP @ [Str ''['', Str (ID P), Str ''] Initializing '', Num (length modules),
                         Str '' modules '']))
            (\<lambda>(s1, OP1).
               Option.bind (pass_loop P modules 0 1 (s1, OP1 @ [Str ''\<newline>'']))
                 (\<lambda>(s2, OP2).
                    let OP3 = OP2 @ [Str ''['', Str (ID P), Str ''] Postprocessing ...\<newline>'']
                    in Option.bind (fin_loop (doFinalization P) modules True s2)
                         (\<lambda>s3. Some (s3, OP3 @ [Str ''['', Str (ID P),
                                                  Str ''] Done!\<newline>\<newline>''])))))"

text \<open>The last token that \<^verbatim>\<open>run\<close> inserts into \<^verbatim>\<open>OP\<close>.\<close>

definition Done :: token where
  "Done = Str ''] Done!\<newline>\<newline>''"

subsection \<open>The phases as the specification words them\<close>

text \<open>
  One full sweep: the hook is called on every module, in the order of the list, and the
  sweep reports a change when some call did.
\<close>

fun sweep :: "('m \<Rightarrow> 's \<Rightarrow> bool \<times> 's) \<Rightarrow> 'm list \<Rightarrow> 's \<Rightarrow> bool \<times> 's" where
  "sweep hook [] s = (False, s)"
| "sweep hook (M # Ms) s =
     (case hook M s of
        (r, s') \<Rightarrow> (case sweep hook Ms s' of (r', s'') \<Rightarrow> (r \<or> r', s'')))"

text \<open>
  A phase: sweeps are repeated until one full sweep reports no change; \<open>s'\<close> is the
  state after that last sweep.
\<close>

inductive until_no_change :: "('s \<Rightarrow> bool \<times> 's) \<Rightarrow> 's \<Rightarrow> 's \<Rightarrow> bool" where
  quiet: "f s = (False, s') \<Longrightarrow> until_no_change f s s'"
| again: "f s = (True, s1) \<Longrightarrow> until_no_change f s1 s' \<Longrightarrow> until_no_change f s s'"

text \<open>The number of calls of one sweep that report a change.\<close>

fun changes :: "('m \<Rightarrow> 's \<Rightarrow> bool \<times> 's) \<Rightarrow> 'm list \<Rightarrow> 's \<Rightarrow> nat" where
  "changes hook [] s = 0"
| "changes hook (M # Ms) s =
     (case hook M s of (r, s') \<Rightarrow> (if r then 1 else 0) + changes hook Ms s')"

subsection \<open>main\<close>

text \<open>
  What \<^verbatim>\<open>main\<close> calls and src does not hold: the IR parser of LLVM, the five passes
  (their hooks, and the constructors that set up the members of the pass objects),
  \<^verbatim>\<open>TypeInitializerPass::BuildTypeStructMap\<close> and \<^verbatim>\<open>MissingChecksPass::processResults\<close>.
  They are parameters of the model. Constructors and the two plain calls are taken to
  return.
\<close>

record ('m, 's) program =
  parseIRFile :: "string \<Rightarrow> 'm option"
  TIPass_ctor :: "'s \<Rightarrow> 's"
  TIPass :: "('m, 's) IterativeModulePass"
  BuildTypeStructMap :: "'s \<Rightarrow> 's"
  CGPass_ctor :: "'s \<Rightarrow> 's"
  CGPass :: "('m, 's) IterativeModulePass"
  PAPass_ctor :: "'s \<Rightarrow> 's"
  PAPass :: "('m, 's) IterativeModulePass"
  SCPass_ctor :: "'s \<Rightarrow> 's"
  SCPass :: "('m, 's) IterativeModulePass"
  MCPass_ctor :: "'s \<Rightarrow> 's"
  MCPass :: "('m, 's) IterativeModulePass"
  processResults :: "'s \<Rightarrow> 's"

text \<open>
  \<^verbatim>\<open>StringRef(strdup(InputFilenames[i].data()))\<close>: the copy ends at the first NUL
  character.
\<close>

definition strdup :: "string \<Rightarrow> string" where
  "strdup str = takeWhile (\<lambda>c. c \<noteq> CHR 0x00) str"

text \<open>
  The loading loop of \<^verbatim>\<open>main\<close>. A null module is reported on \<^verbatim>\<open>OP\<close> and the loop
  goes on (\<^verbatim>\<open>continue\<close>); a loaded module is pushed to \<^verbatim>\<open>GlobalCtx.Modules\<close> and
  entered in \<^verbatim>\<open>GlobalCtx.ModuleMaps\<close>.
\<close>

fun load_modules ::
  "(string \<Rightarrow> 'm option) \<Rightarrow> string \<Rightarrow> string list
     \<Rightarrow> ('m, 'z) GlobalContext_scheme \<times> token list
     \<Rightarrow> ('m, 'z) GlobalContext_scheme \<times> token list" where
  "load_modules parse argv0 [] (GlobalCtx, OP) = (GlobalCtx, OP)"
| "load_modules parse argv0 (InputFilename # InputFilenames) (GlobalCtx, OP) =
     (case parse InputFilename of
        None \<Rightarrow>
          load_modules parse argv0 InputFilenames
            (GlobalCtx,
             OP @ [Str argv0, Str ('': error loading file '' @ [CHR 0x27]), Str InputFilename,
                   Str ([CHR 0x27] @ ''\<newline>'')])
      | Some Module \<Rightarrow>
          load_modules parse argv0 InputFilenames
            (GlobalCtx\<lparr>Modules := Modules GlobalCtx @ [(Module, strdup InputFilename)],
                       ModuleMaps := (ModuleMaps GlobalCtx)(Module \<mapsto> InputFilename)\<rparr>,
             OP))"

text \<open>
  A pass object is constructed and \<^verbatim>\<open>run(GlobalCtx.Modules)\<close> is called on it.
\<close>

definition run_pass ::
  "(('m, 'z) GlobalContext_scheme \<Rightarrow> ('m, 'z) GlobalContext_scheme)
     \<Rightarrow> ('m, ('m, 'z) GlobalContext_scheme) IterativeModulePass
     \<Rightarrow> ('m, 'z) GlobalContext_scheme \<times> token list
     \<Rightarrow> (('m, 'z) GlobalContext_scheme \<times> token list) option" where
  "run_pass ctor P st =
     (case st of (GlobalCtx, OP) \<Rightarrow>
        let GlobalCtx' = ctor GlobalCtx in run P (Modules GlobalCtx') (GlobalCtx', OP))"

text \<open>
  The identifiers that the constructors in SecurityChecks.h and MissingChecks.h pass to
  \<^verbatim>\<open>IterativeModulePass\<close>.
\<close>

definition SecurityChecksPass ::
  "('m, 's) IterativeModulePass \<Rightarrow> ('m, 's) IterativeModulePass" where
  "SecurityChecksPass hooks = hooks\<lparr>ID := ''SecurityChecks''\<rparr>"

definition MissingChecksPass ::
  "('m, 's) IterativeModulePass \<Rightarrow> ('m, 's) IterativeModulePass" where
  "MissingChecksPass hooks = hooks\<lparr>ID := ''MissingChecks''\<rparr>"

text \<open>
  The \<^verbatim>\<open>if (MissingChecks) { ... }\<close> block of \<^verbatim>\<open>main\<close>.
\<close>

definition missing_checks_block ::
  "('m, ('m, 'z) GlobalContext_scheme) program
     \<Rightarrow> ('m, 'z) GlobalContext_scheme \<times> token list
     \<Rightarrow> (('m, 'z) GlobalContext_scheme \<times> token list) option" where
  "missing_checks_block prog st =
     Option.bind (run_pass (PAPass_ctor prog) (PAPass prog) st)
       (\<lambda>st1. Option.bind (run_pass (SCPass_ctor prog) (SecurityChecksPass (SCPass prog)) st1)
       (\<lambda>st2. Option.bind (run_pass (MCPass_ctor prog) (MissingChecksPass (MCPass prog)) st2)
       (\<lambda>(GlobalCtx, OP). Some (processResults prog GlobalCtx, OP))))"

text \<open>
  The part of \<^verbatim>\<open>main\<close> under the comment \<^verbatim>\<open>// Main workflow\<close>: the static tables
  are loaded, then the passes run. The call of \<^verbatim>\<open>PrintResults\<close> at the end of
  \<^verbatim>\<open>main\<close> is commented out in the source, so the model has none.
\<close>

definition main_workflow ::
  "('m, ('m, 'z) GlobalContext_scheme) program \<Rightarrow> filesystem \<Rightarrow> string \<Rightarrow> bool \<Rightarrow> bool
     \<Rightarrow> ('m, 'z) GlobalContext_scheme \<times> token list
     \<Rightarrow> (('m, 'z) GlobalContext_scheme \<times> token list) option" where
  "main_workflow prog fs exepath SecurityChecks MissingChecks st =
     (case st of (GlobalCtx, OP) \<Rightarrow>
        Option.bind
          (run_pass (TIPass_ctor prog) (TIPass prog) (LoadStaticData fs exepath GlobalCtx, OP))
          (\<lambda>(GlobalCtx2, OP2).
             Option.bind
               (run_pass (CGPass_ctor prog) (CGPass prog)
                  (BuildTypeStructMap prog GlobalCtx2, OP2))
               (\<lambda>st3.
                  Option.bind
                    (if SecurityChecks
                     then run_pass (SCPass_ctor prog) (SecurityChecksPass (SCPass prog)) st3
                     else Some st3)
                    (\<lambda>st4.
                       if MissingChecks then missing_checks_block prog st4
                       else Some st4))))"

text \<open>
  \<^verbatim>\<open>int main(int argc, char **argv)\<close>, from the parsed command line on: the input file
  names and the two options \<^verbatim>\<open>-sc\<close> and \<^verbatim>\<open>-mc\<close>. The state is the global
  \<^verbatim>\<open>GlobalCtx\<close> and the stream \<^verbatim>\<open>OP\<close>. \<open>None\<close> is a run that never returns.
\<close>

definition main ::
  "('m, ('m, 'z) GlobalContext_scheme) program \<Rightarrow> filesystem \<Rightarrow> string \<Rightarrow> string
     \<Rightarrow> string list \<Rightarrow> bool \<Rightarrow> bool
     \<Rightarrow> ('m, 'z) GlobalContext_scheme \<times> token list
     \<Rightarrow> (('m, 'z) GlobalContext_scheme \<times> token list) option" where
  "main prog fs exepath argv0 InputFilenames SecurityChecks MissingChecks st =
     (case st of (GlobalCtx, OP) \<Rightarrow>
        main_workflow prog fs exepath SecurityChecks MissingChecks
          (load_modules (parseIRFile prog) argv0 InputFilenames
             (GlobalCtx, OP @ [Str ''Total '', Num (length InputFilenames),
                               Str '' file(s)\<newline>''])))"

text \<open>
  The modules that load, as the specification words it: the files whose parse is not null,
  in the order of the command line, each with its name.
\<close>

definition loaded :: "(string \<Rightarrow> 'm option) \<Rightarrow> string list \<Rightarrow> ('m \<times> string) list" where
  "loaded parse InputFilenames =
     List.map_filter (\<lambda>f. map_option (\<lambda>M. (M, strdup f)) (parse f)) InputFilenames"

text \<open>The diagnostic of one file that does not load.\<close>

definition load_error :: "string \<Rightarrow> string \<Rightarrow> token list" where
  "load_error argv0 f =
     [Str argv0, Str ('': error loading file '' @ [CHR 0x27]), Str f,
      Str ([CHR 0x27] @ ''\<newline>'')]"

section \<open>SecurityChecks.h: the error flags of a CFG edge\<close>

text \<open>
  \<^verbatim>\<open>enum ErrFlag\<close>, with the values the header gives. A flag word is an \<^verbatim>\<open>int\<close>, on
  which the code uses bit operations only.
\<close>

type_synonym flag = "32 word"

definition Must_Return_Err :: flag where "Must_Return_Err = 1"
definition May_Return_Err :: flag where "May_Return_Err = 2"
definition Reserved_Return1 :: flag where "Reserved_Return1 = 4"
definition Reserved_Return2 :: flag where "Reserved_Return2 = 8"
definition Must_Handle_Err :: flag where "Must_Handle_Err = 16"
definition May_Handle_Err :: flag where "May_Handle_Err = 32"
definition Reserved_Handle1 :: flag where "Reserved_Handle1 = 64"
definition Reserved_Handle2 :: flag where "Reserved_Handle2 = 128"
definition Completed_Flag :: flag where "Completed_Flag = 256"

text \<open>The masks named in the comments of the enum.\<close>

definition return_mask :: flag where "return_mask = 0xF"
definition handle_mask :: flag where "handle_mask = 0xF0"

text \<open>
  Modelled from the spec: the bodies of \<^verbatim>\<open>updateReturnFlag\<close>, \<^verbatim>\<open>updateHandleFlag\<close> and
  \<^verbatim>\<open>mergeFlag\<close> (SecurityChecks.cc) are missing; the header declares them as
  incorporating \<^verbatim>\<open>newFlag\<close> into the existing flag. The specification says that Must
  subsumes May on merge, that flags escalate from May to Must and never regress, and that
  the flags of an edge are final once Completed is set. Inside one mask the new bits are
  joined to the old ones, and a May bit is dropped where the Must bit of the same mask
  is set.
\<close>

definition incorporate :: "flag \<Rightarrow> flag \<Rightarrow> flag \<Rightarrow> flag \<Rightarrow> flag \<Rightarrow> flag" where
  "incorporate msk must may errFlag newFlag =
     (if errFlag AND Completed_Flag \<noteq> 0 then errFlag
      else
        let joined = (errFlag OR newFlag) AND msk;
            kept = (if joined AND must \<noteq> 0 then joined AND NOT may else joined)
        in (errFlag AND NOT msk) OR kept)"

text \<open>
  Modelled from the spec: \<^verbatim>\<open>updateReturnFlag\<close> (body missing) incorporates the return
  flags, those under the mask 0xF.
\<close>

definition updateReturnFlag :: "flag \<Rightarrow> flag \<Rightarrow> flag" where
  "updateReturnFlag errFlag newFlag =
     incorporate return_mask Must_Return_Err May_Return_Err errFlag newFlag"

text \<open>
  Modelled from the spec: \<^verbatim>\<open>updateHandleFlag\<close> (body missing) incorporates the handle
  flags, those under the mask 0xF0.
\<close>

definition updateHandleFlag :: "flag \<Rightarrow> flag \<Rightarrow> flag" where
  "updateHandleFlag errFlag newFlag =
     incorporate handle_mask Must_Handle_Err May_Handle_Err errFlag newFlag"

text \<open>
  Modelled from the spec: \<^verbatim>\<open>mergeFlag\<close> (body missing) incorporates both kinds of
  flags.
\<close>

definition mergeFlag :: "flag \<Rightarrow> flag \<Rightarrow> flag" where
  "mergeFlag errFlag newFlag = updateHandleFlag (updateReturnFlag errFlag newFlag) newFlag"

text \<open>The flag updates of one classifier pass on one edge, applied in order.\<close>

datatype flag_update = UpdateReturn flag | UpdateHandle flag | Merge flag

fun apply_update :: "flag \<Rightarrow> flag_update \<Rightarrow> flag" where
  "apply_update errFlag (UpdateReturn newFlag) = updateReturnFlag errFlag newFlag"
| "apply_update errFlag (UpdateHandle newFlag) = updateHandleFlag errFlag newFlag"
| "apply_update errFlag (Merge newFlag) = mergeFlag errFlag newFlag"

definition apply_updates :: "flag \<Rightarrow> flag_update list \<Rightarrow> flag" where
  "apply_updates errFlag us = foldl apply_update errFlag us"

text \<open>How far the flags of an edge have escalated: none, May, Must.\<close>

definition return_level :: "flag \<Rightarrow> nat" where
  "return_level f =
     (if f AND Must_Return_Err \<noteq> 0 then 2 else if f AND May_Return_Err \<noteq> 0 then 1 else 0)"

definition handle_level :: "flag \<Rightarrow> nat" where
  "handle_level f =
     (if f AND Must_Handle_Err \<noteq> 0 then 2 else if f AND May_Handle_Err \<noteq> 0 then 1 else 0)"

text \<open>The same for any pair of a Must bit and a May bit.\<close>

definition level :: "flag \<Rightarrow> flag \<Rightarrow> flag \<Rightarrow> nat" where
  "level must may f = (if f AND must \<noteq> 0 then 2 else if f AND may \<noteq> 0 then 1 else 0)"

section \<open>MissingChecks.h: modelled security checks\<close>

datatype SCOperator = ICMP_OTHER | ICMP_EQ | ICMP_NE | ICMP_GT | ICMP_LT

datatype SCCondition = SCC_OTHER | SCC_NULL | SCC_ZERO | SCC_POS | SCC_NEG | SCC_CONST | SCC_VAR

text \<open>A \<^verbatim>\<open>Value *\<close> is an address; \<^verbatim>\<open><\<close> on pointers compares addresses.\<close>

type_synonym Value_ptr = "64 word"

record ModelSC =
  SCO :: SCOperator
  SCC :: SCCondition
  SrcUse :: Value_ptr
  ArgNo :: int8_t

text \<open>\<^verbatim>\<open>friend bool operator< (const ModelSC &MSC1, const ModelSC &MSC2)\<close>\<close>

definition ModelSC_less :: "ModelSC \<Rightarrow> ModelSC \<Rightarrow> bool" where
  "ModelSC_less MSC1 MSC2 = (SrcUse MSC1 < SrcUse MSC2)"

text \<open>
  \<^verbatim>\<open>std::set<T>\<close> of the C++ standard library, ordered by \<^verbatim>\<open>operator<\<close>: the elements
  in ascending order. Two elements are equivalent when neither is less than the other,
  and \<^verbatim>\<open>insert\<close> leaves the set as it is when it holds an equivalent element.
\<close>

definition equivalent :: "('a \<Rightarrow> 'a \<Rightarrow> bool) \<Rightarrow> 'a \<Rightarrow> 'a \<Rightarrow> bool" where
  "equivalent lt a b = (\<not> lt a b \<and> \<not> lt b a)"

fun set_insert :: "('a \<Rightarrow> 'a \<Rightarrow> bool) \<Rightarrow> 'a \<Rightarrow> 'a list \<Rightarrow> 'a list" where
  "set_insert lt x [] = [x]"
| "set_insert lt x (y # ys) =
     (if lt x y then x # y # ys
      else if lt y x then y # set_insert lt x ys
      else y # ys)"

text \<open>A \<^verbatim>\<open>set<ModelSC>\<close> after the given models were inserted, in order, into the empty set.\<close>

definition ModelSC_set :: "ModelSC list \<Rightarrow> ModelSC list" where
  "ModelSC_set MSCs = foldl (\<lambda>S MSC. set_insert ModelSC_less MSC S) [] MSCs"

section \<open>Concrete inputs\<close>

text \<open>Two modelled checks of the same guarded value.\<close>

definition check_ne_zero :: ModelSC where
  "check_ne_zero = \<lparr>SCO = ICMP_NE, SCC = SCC_ZERO, SrcUse = 0x1000, ArgNo = 0\<rparr>"

definition check_lt_const :: ModelSC where
  "check_lt_const = \<lparr>SCO = ICMP_LT, SCC = SCC_CONST, SrcUse = 0x1000, ArgNo = 2\<rparr>"

text \<open>
  A pass whose hooks write down every call, with the phase and the module, and report a
  change as long as a budget lasts. The state is the budget and the log.
\<close>

definition budget_hook ::
  "string \<Rightarrow> nat \<Rightarrow> nat \<times> (string \<times> nat) list \<Rightarrow> bool \<times> nat \<times> (string \<times> nat) list" where
  "budget_hook phase M s =
     (case s of (budget, log) \<Rightarrow> (0 < budget, budget - 1, log @ [(phase, M)]))"

definition budget_pass :: "(nat, nat \<times> (string \<times> nat) list) IterativeModulePass" where
  "budget_pass =
     \<lparr>ID = ''Budget'', doInitialization = budget_hook ''init'',
      doModulePass = budget_hook ''pass'', doFinalization = budget_hook ''fin''\<rparr>"

text \<open>
  A program over a context with a log. Every \<^verbatim>\<open>doModulePass\<close> hook writes the name of
  its pass to the log and reports no change; the hook of the classifier also counts one
  sanity check among two conditional statements. The parser knows the file a.bc only.
\<close>

record 'm LoggedContext = "'m GlobalContext" +
  Log :: "string list"

definition log_pass :: "string \<Rightarrow> (nat, nat LoggedContext) IterativeModulePass" where
  "log_pass name =
     \<lparr>ID = name,
      doInitialization = (\<lambda>M G. (False, G)),
      doModulePass = (\<lambda>M G. (False, G\<lparr>Log := Log G @ [name]\<rparr>)),
      doFinalization = (\<lambda>M G. (False, G))\<rparr>"

definition counting_pass :: "string \<Rightarrow> (nat, nat LoggedContext) IterativeModulePass" where
  "counting_pass name =
     \<lparr>ID = name,
      doInitialization = (\<lambda>M G. (False, G)),
      doModulePass =
        (\<lambda>M G. (False, G\<lparr>NumSecurityChecks := NumSecurityChecks G + 1,
                            NumCondStatements := NumCondStatements G + 2,
                            Log := Log G @ [name]\<rparr>)),
      doFinalization = (\<lambda>M G. (False, G))\<rparr>"

definition log_program :: "(nat, nat LoggedContext) program" where
  "log_program =
     \<lparr>parseIRFile = (\<lambda>f. if f = ''a.bc'' then Some 0 else None),
      TIPass_ctor = (\<lambda>G. G),
      TIPass = log_pass ''TypeInitializer'',
      BuildTypeStructMap = (\<lambda>G. G\<lparr>Log := Log G @ [''BuildTypeStructMap'']\<rparr>),
      CGPass_ctor = (\<lambda>G. G),
      CGPass = log_pass ''CallGraph'',
      PAPass_ctor = (\<lambda>G. G),
      PAPass = log_pass ''PointerAnalysis'',
      SCPass_ctor = (\<lambda>G. G),
      SCPass = counting_pass ''SecurityChecks'',
      MCPass_ctor = (\<lambda>G. G),
      MCPass = log_pass ''MissingChecks'',
      processResults = (\<lambda>G. G\<lparr>Log := Log G @ [''processResults'']\<rparr>)\<rparr>"

definition LoggedCtx_init :: "nat LoggedContext" where
  "LoggedCtx_init =
     \<lparr>Modules = [], ModuleMaps = Map.empty, ErrorHandleFuncs = {}, CopyFuncs = Map.empty,
      DataFetchFuncs = Map.empty, NumSecurityChecks = 0, NumCondStatements = 0, Log = []\<rparr>"

text \<open>
  A run of the driver on that program with \<^verbatim>\<open>-mc\<close>: two input files, of which the
  first does not load; no configuration file.
\<close>

definition log_run :: "(nat LoggedContext \<times> token list) option" where
  "log_run =
     main log_program Map.empty ''/opt/crix/kanalyzer'' ''kanalyzer'' [''missing.bc'', ''a.bc'']
       False True (LoggedCtx_init, [])"

section \<open>Verification\<close>

subsection \<open>The static tables\<close>

lemma lines_of_no_newline: "newline \<notin> set s \<Longrightarrow> lines_of s = [s]"
  by (induction s) auto

lemma lines_of_newline:
  "newline \<in> set s \<Longrightarrow>
   lines_of s = takeWhile (\<lambda>c. c \<noteq> newline) s # lines_of (tl (dropWhile (\<lambda>c. c \<noteq> newline) s))"
proof (induction s)
  case Nil
  then show ?case by simp
next
  case (Cons c cs)
  show ?case
  proof (cases "c = newline")
    case True
    then show ?thesis by simp
  next
    case False
    with Cons.prems have "newline \<in> set cs" by simp
    from Cons.IH [OF this] False show ?thesis by simp
  qed
qed

lemma read_err_lines_eq:
  "read_err_lines rest S = S \<union> {l \<in> set (lines_of rest). length l > 1}"
proof (induction rest S rule: read_err_lines.induct)
  case (1 rest S)
  show ?case
  proof (cases "newline \<in> set rest")
    case False
    then show ?thesis
      by (subst read_err_lines.simps) (auto simp: getline_def lines_of_no_newline)
  next
    case True
    let ?line = "takeWhile (\<lambda>c. c \<noteq> newline) rest"
    let ?rest' = "tl (dropWhile (\<lambda>c. c \<noteq> newline) rest)"
    let ?S' = "if length ?line > 1 then insert ?line S else S"
    from True have g: "getline rest = (?line, ?rest', False)"
      by (simp add: getline_def)
    have "read_err_lines rest S = read_err_lines ?rest' ?S'"
      by (subst read_err_lines.simps) (simp add: g Let_def)
    also have "\<dots> = ?S' \<union> {l \<in> set (lines_of ?rest'). length l > 1}"
      using "1.IH" [OF g [symmetric] refl refl] by simp
    also have "\<dots> = S \<union> {l \<in> set (lines_of rest). length l > 1}"
      using lines_of_newline [OF True] by auto
    finally show ?thesis .
  qed
qed

lemma fold_insert_set: "fold insert xs S = set xs \<union> S"
  by (induction xs arbitrary: S) auto

lemma SetErrorHandleFuncs_eq:
  "SetErrorHandleFuncs fs exepath S =
     S \<union> (case fs (exedir_of exepath @ ''/configs/err-funcs'') of
            Some content \<Rightarrow> {l \<in> set (lines_of content). length l > 1}
          | None \<Rightarrow> {}) \<union> set ErrorHandleFN"
  by (auto simp: SetErrorHandleFuncs_def Let_def fold_insert_set read_err_lines_eq
      split: option.splits)

lemma ErrorHandleFuncs_LoadStaticData:
  "ErrorHandleFuncs (LoadStaticData fs exepath GCtx) =
     SetErrorHandleFuncs fs exepath (ErrorHandleFuncs GCtx)"
  by (simp add: LoadStaticData_def Let_def)

lemma ErrorHandleFN_long: "l \<in> set ErrorHandleFN \<Longrightarrow> 3 \<le> length l"
  by (auto simp: ErrorHandleFN_def)

lemma exedir_example: "exedir_of ''/opt/crix/kanalyzer'' = ''/opt/crix''"
  by (simp add: exedir_of_def)

text \<open>
  C1 (as amended). The names that \<^verbatim>\<open>SetCopyFuncs\<close> registers are memcpy, __memcpy,
  the two llvm.memcpy intrinsics, strncpy, memmove, __memmove and the two llvm.memmove
  intrinsics, and for every one of them the entry is the tuple (1, 0, 2). Its components are, in this order, the
  source argument, the destination argument and the size argument, as the comment of the
  parameter says: the destination index is 0, the source index 1, the size index 2.
\<close>

theorem SetCopyFuncs_src_dst_size:
  "name \<in> set CopyFuncNames \<Longrightarrow>
     SetCopyFuncs tbl name = Some (1, 0, 2) \<and>
     read_src_dst_size (the (SetCopyFuncs tbl name)) =
       \<lparr>dst_arg = 0, src_arg = 1, size_arg = 2\<rparr> \<and>
     dom (SetCopyFuncs Map.empty) = set CopyFuncNames"
proof -
  assume "name \<in> set CopyFuncNames"
  then have "SetCopyFuncs tbl name = Some (1, 0, 2)"
    by (auto simp: CopyFuncNames_def SetCopyFuncs_def)
  moreover have "dom (SetCopyFuncs Map.empty) = set CopyFuncNames"
    by (simp add: SetCopyFuncs_def CopyFuncNames_def insert_commute)
  ultimately show ?thesis
    by (simp add: read_src_dst_size_def)
qed

theorem SetCopyFuncs_src_dst_size_witness:
  "''memcpy'' \<in> set CopyFuncNames \<and>
   SetCopyFuncs Map.empty ''memcpy'' = Some (1, 0, 2) \<and>
   dst_arg (read_src_dst_size (the (SetCopyFuncs Map.empty ''memcpy''))) = 0 \<and>
   src_arg (read_src_dst_size (the (SetCopyFuncs Map.empty ''memcpy''))) = 1"
proof -
  have m: "''memcpy'' \<in> set CopyFuncNames"
    by (simp add: CopyFuncNames_def)
  from SetCopyFuncs_src_dst_size [OF m, of Map.empty] m show ?thesis
    by (simp add: read_src_dst_size_def)
qed

theorem SetCopyFuncs_dst_src_size_counterexample:
  "\<not> (dst_arg (read_dst_src_size (the (SetCopyFuncs Map.empty ''memcpy''))) = 0 \<and>
      src_arg (read_dst_src_size (the (SetCopyFuncs Map.empty ''memcpy''))) = 1)"
  by (simp add: SetCopyFuncs_def read_dst_src_size_def)

text \<open>
  C7 (as amended). After \<^verbatim>\<open>LoadStaticData\<close> has run on a context whose table of
  error-handling functions was empty, the table is the union of the lines of length 2 or
  more of the file configs/err-funcs beside the executable and of the built-in names;
  when the file cannot be opened the table is the set of the built-in names, and loading
  ends; it ends as well on every file that is read to its end (a read error on an open
  file is outside the model).
\<close>

theorem LoadStaticData_ErrorHandleFuncs:
  assumes "ErrorHandleFuncs GCtx = {}"
  shows "ErrorHandleFuncs (LoadStaticData fs exepath GCtx) =
           (case fs (exedir_of exepath @ ''/configs/err-funcs'') of
              Some content \<Rightarrow> {l \<in> set (lines_of content). 2 \<le> length l} \<union> set ErrorHandleFN
            | None \<Rightarrow> set ErrorHandleFN)"
  using assms
  by (auto simp: ErrorHandleFuncs_LoadStaticData SetErrorHandleFuncs_eq split: option.splits)

theorem LoadStaticData_ErrorHandleFuncs_witness:
  "ErrorHandleFuncs (GlobalCtx_init :: nat GlobalContext) = {} \<and>
   ErrorHandleFuncs
     (LoadStaticData [''/opt/crix/configs/err-funcs'' \<mapsto> ''my_die\<newline>x\<newline>'']
        ''/opt/crix/kanalyzer'' (GlobalCtx_init :: nat GlobalContext)) =
     insert ''my_die'' (set ErrorHandleFN) \<and>
   ErrorHandleFuncs
     (LoadStaticData Map.empty ''/opt/crix/kanalyzer'' (GlobalCtx_init :: nat GlobalContext)) =
     set ErrorHandleFN"
proof -
  have e: "ErrorHandleFuncs (GlobalCtx_init :: nat GlobalContext) = {}"
    by (simp add: GlobalCtx_init_def)
  have l: "{l \<in> set (lines_of ''my_die\<newline>x\<newline>''). 2 \<le> length l} = {''my_die''}"
    by (auto simp: newline_def)
  show ?thesis
    using LoadStaticData_ErrorHandleFuncs [OF e,
        of "[''/opt/crix/configs/err-funcs'' \<mapsto> ''my_die\<newline>x\<newline>'']" "''/opt/crix/kanalyzer''"]
      LoadStaticData_ErrorHandleFuncs [OF e, of Map.empty "''/opt/crix/kanalyzer''"] e l
    by (simp add: exedir_example)
qed

theorem LoadStaticData_ErrorHandleFuncs_counterexample:
  "ErrorHandleFuncs
     (LoadStaticData [''/opt/crix/configs/err-funcs'' \<mapsto> ''x'']
        ''/opt/crix/kanalyzer'' (GlobalCtx_init :: nat GlobalContext)) \<noteq>
   set (lines_of ''x'') \<union> set ErrorHandleFN"
proof -
  have "''x'' \<notin> ErrorHandleFuncs
     (LoadStaticData [''/opt/crix/configs/err-funcs'' \<mapsto> ''x'']
        ''/opt/crix/kanalyzer'' (GlobalCtx_init :: nat GlobalContext))"
    by (simp add: ErrorHandleFuncs_LoadStaticData SetErrorHandleFuncs_eq exedir_example
        GlobalCtx_init_def newline_def ErrorHandleFN_def)
  moreover have "''x'' \<in> set (lines_of ''x'') \<union> set ErrorHandleFN"
    by (simp add: newline_def)
  ultimately show ?thesis
    by blast
qed

text \<open>
  C9. For a line of the configuration file: a line of length 2 or more is in the table
  after \<^verbatim>\<open>SetErrorHandleFuncs\<close>, as it stands; a line of length 1 or 0 is in the
  table only if it was there before the call, so a one-character name of the file is
  never added.
\<close>

theorem SetErrorHandleFuncs_short_lines:
  assumes "fs (exedir_of exepath @ ''/configs/err-funcs'') = Some content"
      and "l \<in> set (lines_of content)"
  shows "(2 \<le> length l \<longrightarrow> l \<in> SetErrorHandleFuncs fs exepath S) \<and>
         (length l \<le> 1 \<longrightarrow> (l \<in> SetErrorHandleFuncs fs exepath S \<longleftrightarrow> l \<in> S))"
  using assms ErrorHandleFN_long [of l]
  by (auto simp: SetErrorHandleFuncs_eq)

theorem SetErrorHandleFuncs_short_lines_witness:
  "''ab'' \<in> SetErrorHandleFuncs [''/opt/crix/configs/err-funcs'' \<mapsto> ''ab\<newline>x'']
              ''/opt/crix/kanalyzer'' {} \<and>
   ''x'' \<notin> SetErrorHandleFuncs [''/opt/crix/configs/err-funcs'' \<mapsto> ''ab\<newline>x'']
              ''/opt/crix/kanalyzer'' {}"
proof -
  let ?fs = "[''/opt/crix/configs/err-funcs'' \<mapsto> ''ab\<newline>x'']"
  have f: "?fs (exedir_of ''/opt/crix/kanalyzer'' @ ''/configs/err-funcs'') = Some ''ab\<newline>x''"
    by (simp add: exedir_example)
  have ls: "lines_of ''ab\<newline>x'' = [''ab'', ''x'']"
    by (simp add: newline_def)
  have a: "''ab'' \<in> set (lines_of ''ab\<newline>x'')" and x: "''x'' \<in> set (lines_of ''ab\<newline>x'')"
    unfolding ls by simp_all
  from SetErrorHandleFuncs_short_lines
         [where fs = ?fs and exepath = "''/opt/crix/kanalyzer''" and S = "{}", OF f a]
       SetErrorHandleFuncs_short_lines
         [where fs = ?fs and exepath = "''/opt/crix/kanalyzer''" and S = "{}", OF f x]
  show ?thesis
    by simp
qed

subsection \<open>The set of modelled checks\<close>

lemma equivalent_ModelSC_less: "equivalent ModelSC_less a b \<longleftrightarrow> SrcUse a = SrcUse b"
  by (auto simp: equivalent_def ModelSC_less_def)

lemma set_set_insert: "set (set_insert lt x ys) \<subseteq> insert x (set ys)"
  by (induction ys) auto

lemma sorted_set_insert:
  "sorted_wrt ModelSC_less ys \<Longrightarrow> sorted_wrt ModelSC_less (set_insert ModelSC_less x ys)"
proof (induction ys)
  case Nil
  then show ?case by simp
next
  case (Cons y ys)
  show ?case
  proof (cases "ModelSC_less x y")
    case True
    with Cons.prems show ?thesis
      by (auto simp: ModelSC_less_def)
  next
    case False
    show ?thesis
    proof (cases "ModelSC_less y x")
      case True
      have "\<forall>z \<in> set (set_insert ModelSC_less x ys). ModelSC_less y z"
        using set_set_insert [of ModelSC_less x ys] True Cons.prems by auto
      with Cons False True show ?thesis
        by simp
    next
      case False
      with \<open>\<not> ModelSC_less x y\<close> Cons.prems show ?thesis
        by simp
    qed
  qed
qed

lemma sorted_ModelSC_set_aux:
  "sorted_wrt ModelSC_less S \<Longrightarrow>
   sorted_wrt ModelSC_less (foldl (\<lambda>S MSC. set_insert ModelSC_less MSC S) S MSCs)"
  by (induction MSCs arbitrary: S) (simp_all add: sorted_set_insert)

lemma sorted_ModelSC_set: "sorted_wrt ModelSC_less (ModelSC_set MSCs)"
  by (simp add: ModelSC_set_def sorted_ModelSC_set_aux)

lemma sorted_distinct_SrcUse: "sorted_wrt ModelSC_less S \<Longrightarrow> distinct (map SrcUse S)"
  by (induction S) (auto simp: ModelSC_less_def)

lemma set_insert_present:
  "sorted_wrt ModelSC_less S \<Longrightarrow> M \<in> set S \<Longrightarrow> SrcUse M = SrcUse x \<Longrightarrow>
   set_insert ModelSC_less x S = S"
proof (induction S)
  case Nil
  then show ?case by simp
next
  case (Cons y ys)
  show ?case
  proof (cases "M = y")
    case True
    with Cons.prems show ?thesis
      by (simp add: ModelSC_less_def)
  next
    case False
    with Cons.prems have M: "M \<in> set ys" and lt: "ModelSC_less y M"
      by auto
    from lt Cons.prems(3) have "ModelSC_less y x" "\<not> ModelSC_less x y"
      by (auto simp: ModelSC_less_def)
    moreover from Cons.IH Cons.prems M have "set_insert ModelSC_less x ys = ys"
      by simp
    ultimately show ?thesis
      by simp
  qed
qed

text \<open>
  C10. Two models are equivalent under \<^verbatim>\<open>operator<\<close> exactly when their \<^verbatim>\<open>SrcUse\<close>
  fields are equal, whatever their operator class, condition class and argument index.
  Hence a \<^verbatim>\<open>set<ModelSC>\<close> holds at most one model for each guarded value, and
  inserting a model whose \<^verbatim>\<open>SrcUse\<close> the set already holds leaves the set as it was.
\<close>

theorem ModelSC_set_one_per_SrcUse:
  "(equivalent ModelSC_less MSC1 MSC2 \<longleftrightarrow> SrcUse MSC1 = SrcUse MSC2) \<and>
   distinct (map SrcUse (ModelSC_set MSCs)) \<and>
   (\<forall>M \<in> set (ModelSC_set MSCs).
      SrcUse M = SrcUse MSC \<longrightarrow>
      set_insert ModelSC_less MSC (ModelSC_set MSCs) = ModelSC_set MSCs)"
  using sorted_ModelSC_set [of MSCs]
  by (auto simp: equivalent_ModelSC_less sorted_distinct_SrcUse intro: set_insert_present)

lemma ModelSC_set_single: "ModelSC_set [check_ne_zero] = [check_ne_zero]"
  by (simp add: ModelSC_set_def)

theorem ModelSC_set_one_per_SrcUse_witness:
  "check_ne_zero \<in> set (ModelSC_set [check_ne_zero]) \<and>
   SrcUse check_ne_zero = SrcUse check_lt_const \<and>
   check_lt_const \<noteq> check_ne_zero \<and>
   equivalent ModelSC_less check_ne_zero check_lt_const \<and>
   set_insert ModelSC_less check_lt_const (ModelSC_set [check_ne_zero]) = [check_ne_zero] \<and>
   ModelSC_set [check_ne_zero, check_lt_const] = [check_ne_zero]"
proof -
  have s: "SrcUse check_ne_zero = SrcUse check_lt_const"
    by (simp add: check_ne_zero_def check_lt_const_def)
  have n: "check_lt_const \<noteq> check_ne_zero"
    by (simp add: check_ne_zero_def check_lt_const_def)
  have f: "ModelSC_set [check_ne_zero, check_lt_const] =
           set_insert ModelSC_less check_lt_const (ModelSC_set [check_ne_zero])"
    by (simp add: ModelSC_set_def)
  from ModelSC_set_one_per_SrcUse
         [of check_ne_zero check_lt_const "[check_ne_zero]" check_lt_const] s n f
  show ?thesis
    by (simp add: ModelSC_set_single)
qed

subsection \<open>The error flags\<close>

lemma incorporate_completed:
  "e AND Completed_Flag \<noteq> 0 \<Longrightarrow> incorporate msk must may e n = e"
  by (simp add: incorporate_def)

lemma disjoint_bits:
  assumes "(q :: flag) AND m = 0" "bit q k"
  shows "\<not> bit m k"
proof
  assume "bit m k"
  with assms(2) have "bit (q AND m) k"
    by (simp add: bit_and_iff)
  with assms(1) show False
    by simp
qed

lemma subset_bits:
  assumes "(q :: flag) AND m = q" "bit q k"
  shows "bit m k"
proof -
  from assms have "bit (q AND m) k"
    by simp
  then show ?thesis
    by (simp add: bit_and_iff)
qed

lemma incorporate_outside:
  assumes "q AND msk = 0"
  shows "incorporate msk must may e n AND q = e AND q"
proof (rule bit_word_eqI)
  fix k
  assume k: "k < LENGTH(32)"
  show "bit (incorporate msk must may e n AND q) k = bit (e AND q) k"
    using disjoint_bits [OF assms, of k] k
    by (auto simp: incorporate_def Let_def bit_and_iff bit_or_iff bit_not_iff)
qed

lemma incorporate_must:
  assumes "must AND msk = must" "must AND may = 0" "e AND Completed_Flag = 0"
  shows "incorporate msk must may e n AND must = (e OR n) AND must"
proof (rule bit_word_eqI)
  fix k
  assume k: "k < LENGTH(32)"
  show "bit (incorporate msk must may e n AND must) k = bit ((e OR n) AND must) k"
    using subset_bits [OF assms(1), of k] disjoint_bits [OF assms(2), of k] assms(3) k
    by (auto simp: incorporate_def Let_def bit_and_iff bit_or_iff bit_not_iff)
qed

lemma incorporate_may:
  assumes "may AND msk = may" "e AND Completed_Flag = 0" "((e OR n) AND msk) AND must = 0"
  shows "incorporate msk must may e n AND may = (e OR n) AND may"
proof (rule bit_word_eqI)
  fix k
  assume k: "k < LENGTH(32)"
  show "bit (incorporate msk must may e n AND may) k = bit ((e OR n) AND may) k"
    using subset_bits [OF assms(1), of k] assms(2,3) k
    by (auto simp: incorporate_def Let_def bit_and_iff bit_or_iff bit_not_iff)
qed

lemmas flag_defs = Must_Return_Err_def May_Return_Err_def Must_Handle_Err_def May_Handle_Err_def
  Completed_Flag_def return_mask_def handle_mask_def

lemma or_test: "((e :: flag) OR n) AND q = 0 \<longleftrightarrow> e AND q = 0 \<and> n AND q = 0"
  by (simp add: bit.conj_disj_distrib2 or_eq_0_iff)

lemma level_incorporate_inside:
  assumes "must AND msk = must" "may AND msk = may" "must AND may = 0"
  shows "level must may e \<le> level must may (incorporate msk must may e n)"
proof (cases "e AND Completed_Flag = 0")
  case False
  then show ?thesis by (simp add: incorporate_completed)
next
  case True
  note m = incorporate_must [OF assms(1) assms(3) True, of n]
  show ?thesis
  proof (cases "(e OR n) AND must = 0")
    case False
    then show ?thesis by (simp add: level_def m)
  next
    case z: True
    have "((e OR n) AND msk) AND must = 0"
      using z assms(1) by (simp add: and.assoc and.left_commute)
    from incorporate_may [OF assms(2) True this] z show ?thesis
      by (auto simp: level_def m or_test)
  qed
qed

lemma level_incorporate_outside:
  assumes "must AND msk = 0" "may AND msk = 0"
  shows "level must may (incorporate msk must' may' e n) = level must may e"
  by (simp add: level_def incorporate_outside [OF assms(1)] incorporate_outside [OF assms(2)])

lemma return_level_eq: "return_level f = level Must_Return_Err May_Return_Err f"
  by (simp add: return_level_def level_def)

lemma handle_level_eq: "handle_level f = level Must_Handle_Err May_Handle_Err f"
  by (simp add: handle_level_def level_def)

lemma return_level_updateReturnFlag:
  "return_level e \<le> return_level (updateReturnFlag e n)"
  unfolding return_level_eq updateReturnFlag_def
  by (rule level_incorporate_inside) (simp_all add: flag_defs)

lemma return_level_updateHandleFlag:
  "return_level (updateHandleFlag e n) = return_level e"
  unfolding return_level_eq updateHandleFlag_def
  by (rule level_incorporate_outside) (simp_all add: flag_defs)

lemma handle_level_updateHandleFlag:
  "handle_level e \<le> handle_level (updateHandleFlag e n)"
  unfolding handle_level_eq updateHandleFlag_def
  by (rule level_incorporate_inside) (simp_all add: flag_defs)

lemma handle_level_updateReturnFlag:
  "handle_level (updateReturnFlag e n) = handle_level e"
  unfolding handle_level_eq updateReturnFlag_def
  by (rule level_incorporate_outside) (simp_all add: flag_defs)

lemma levels_apply_update:
  "return_level e \<le> return_level (apply_update e u) \<and>
   handle_level e \<le> handle_level (apply_update e u)"
proof (cases u)
  case (UpdateReturn n)
  then show ?thesis
    by (simp add: return_level_updateReturnFlag handle_level_updateReturnFlag)
next
  case (UpdateHandle n)
  then show ?thesis
    by (simp add: return_level_updateHandleFlag handle_level_updateHandleFlag)
next
  case (Merge n)
  have "return_level e \<le> return_level (updateReturnFlag e n)"
    by (rule return_level_updateReturnFlag)
  moreover have "handle_level e \<le> handle_level (updateHandleFlag (updateReturnFlag e n) n)"
    using handle_level_updateHandleFlag [of "updateReturnFlag e n" n]
    by (simp add: handle_level_updateReturnFlag)
  ultimately show ?thesis
    using Merge by (simp add: mergeFlag_def return_level_updateHandleFlag)
qed

lemma levels_apply_updates:
  "return_level e \<le> return_level (apply_updates e us) \<and>
   handle_level e \<le> handle_level (apply_updates e us)"
  unfolding apply_updates_def
proof (induction us arbitrary: e)
  case Nil
  show ?case by simp
next
  case (Cons u us)
  from levels_apply_update [of e u] Cons.IH [of "apply_update e u"] show ?case
    by (auto intro: order_trans)
qed

lemma completed_apply_update:
  "e AND Completed_Flag \<noteq> 0 \<Longrightarrow> apply_update e u = e"
  by (cases u)
     (simp_all add: mergeFlag_def updateReturnFlag_def updateHandleFlag_def incorporate_completed)

lemma completed_apply_updates:
  "e AND Completed_Flag \<noteq> 0 \<Longrightarrow> apply_updates e us = e"
  unfolding apply_updates_def
  by (induction us) (simp_all add: completed_apply_update)

lemma outside_apply_update_return:
  "updateReturnFlag e n AND NOT return_mask = e AND NOT return_mask"
  unfolding updateReturnFlag_def by (rule incorporate_outside) simp

lemma outside_apply_update_handle:
  "updateHandleFlag e n AND NOT handle_mask = e AND NOT handle_mask"
  unfolding updateHandleFlag_def by (rule incorporate_outside) simp

text \<open>
  C5. Over any sequence of \<^verbatim>\<open>updateReturnFlag\<close>, \<^verbatim>\<open>updateHandleFlag\<close> and
  \<^verbatim>\<open>mergeFlag\<close> on the flag word of an edge, the return level and the handle level
  (none, May, Must) never go down; a flag word with \<^verbatim>\<open>Completed_Flag\<close> set is left as
  it is; \<^verbatim>\<open>updateReturnFlag\<close> changes no bit outside the mask 0xF and
  \<^verbatim>\<open>updateHandleFlag\<close> none outside 0xF0; the four return flags make up the mask 0xF,
  the four handle flags the mask 0xF0, the two masks share no bit and \<^verbatim>\<open>Completed_Flag\<close>
  lies in neither.
\<close>
theorem ErrFlag_escalation:
  "return_level errFlag \<le> return_level (apply_updates errFlag us) \<and>
   handle_level errFlag \<le> handle_level (apply_updates errFlag us) \<and>
   (errFlag AND Completed_Flag \<noteq> 0 \<longrightarrow> apply_updates errFlag us = errFlag) \<and>
   updateReturnFlag errFlag newFlag AND NOT return_mask = errFlag AND NOT return_mask \<and>
   updateHandleFlag errFlag newFlag AND NOT handle_mask = errFlag AND NOT handle_mask \<and>
   Must_Return_Err OR May_Return_Err OR Reserved_Return1 OR Reserved_Return2 = return_mask \<and>
   Must_Handle_Err OR May_Handle_Err OR Reserved_Handle1 OR Reserved_Handle2 = handle_mask \<and>
   return_mask AND handle_mask = 0 \<and>
   Completed_Flag AND (return_mask OR handle_mask) = 0"
  using levels_apply_updates [of errFlag us]
  by (simp add: completed_apply_updates outside_apply_update_return outside_apply_update_handle)
     (simp add: flag_defs Reserved_Return1_def Reserved_Return2_def Reserved_Handle1_def
        Reserved_Handle2_def)

theorem ErrFlag_escalation_witness:
  "(Completed_Flag OR May_Return_Err) AND Completed_Flag \<noteq> 0 \<and>
   apply_updates (Completed_Flag OR May_Return_Err)
     [UpdateReturn Must_Return_Err, Merge Must_Handle_Err] = Completed_Flag OR May_Return_Err \<and>
   return_level May_Return_Err = 1 \<and>
   return_level (apply_updates May_Return_Err
     [UpdateReturn Must_Return_Err, Merge (May_Return_Err OR May_Handle_Err),
      UpdateHandle Must_Handle_Err]) = 2 \<and>
   apply_updates May_Return_Err
     [UpdateReturn Must_Return_Err, Merge (May_Return_Err OR May_Handle_Err),
      UpdateHandle Must_Handle_Err] = Must_Return_Err OR Must_Handle_Err"
proof -
  have c: "(Completed_Flag OR May_Return_Err) AND Completed_Flag \<noteq> 0"
    by (simp add: flag_defs)
  have e: "apply_updates May_Return_Err
     [UpdateReturn Must_Return_Err, Merge (May_Return_Err OR May_Handle_Err),
      UpdateHandle Must_Handle_Err] = Must_Return_Err OR Must_Handle_Err"
    by (simp add: apply_updates_def mergeFlag_def updateReturnFlag_def updateHandleFlag_def
        incorporate_def flag_defs)
  have l: "return_level May_Return_Err = 1" "return_level (Must_Return_Err OR Must_Handle_Err) = 2"
    by (simp_all add: return_level_def flag_defs)
  from ErrFlag_escalation [of "Completed_Flag OR May_Return_Err"
      "[UpdateReturn Must_Return_Err, Merge Must_Handle_Err]" 0] c e l
  show ?thesis
    by simp
qed

subsection \<open>IterativeModulePass::run\<close>

lemma init_sweep_sweep:
  "\<exists>OP'. init_sweep d ms again (s, OP) =
           (again \<or> fst (sweep d (map fst ms) s), snd (sweep d (map fst ms) s), OP')"
proof (induction ms arbitrary: again s OP)
  case Nil
  show ?case by simp
next
  case (Cons m ms)
  obtain M MName where m: "m = (M, MName)" by (cases m)
  obtain r s1 where h: "d M s = (r, s1)" by (cases "d M s")
  from Cons.IH [of "again \<or> r" s1 "OP @ [Str ''.'']"] show ?case
    by (auto simp: m h split: prod.splits)
qed

lemma fin_sweep_sweep:
  "fin_sweep d ms again s = (again \<or> fst (sweep d (map fst ms) s), snd (sweep d (map fst ms) s))"
proof (induction ms arbitrary: again s)
  case Nil
  show ?case by simp
next
  case (Cons m ms)
  obtain M MName where m: "m = (M, MName)" by (cases m)
  obtain r s1 where h: "d M s = (r, s1)" by (cases "d M s")
  from Cons.IH [of "again \<or> r" s1] show ?case
    by (auto simp: m h split: prod.splits)
qed

lemma pass_sweep_sweep:
  "\<exists>OP'. pass_sweep P iter tot ms counter changed (s, OP) =
           (changed + of_nat (changes (doModulePass P) (map fst ms) s),
            snd (sweep (doModulePass P) (map fst ms) s), OP')"
proof (induction ms arbitrary: counter changed s OP)
  case Nil
  show ?case by simp
next
  case (Cons m ms)
  obtain M MName where m: "m = (M, MName)" by (cases m)
  obtain r s1 where h: "doModulePass P M s = (r, s1)" by (cases "doModulePass P M s")
  obtain r' s2 where h': "sweep (doModulePass P) (map fst ms) s1 = (r', s2)"
    by (cases "sweep (doModulePass P) (map fst ms) s1")
  let ?OP1 = "OP @ [Str ''['', Str (ID P), Str '' / '', Num (unat iter), Str ''] '']
                 @ [Str ''['', Num (unat (counter + 1)), Str '' / '', Num (unat tot), Str ''] '']
                 @ [Str ''['', Str MName, Str '']\<newline>'']"
  show ?case
  proof (cases r)
    case True
    obtain OP' where
      "pass_sweep P iter tot ms (counter + 1) (changed + 1)
         (s1, ?OP1 @ [Str ([CHR 0x09] @ '' [CHANGED]\<newline>'')]) =
       (changed + 1 + of_nat (changes (doModulePass P) (map fst ms) s1), s2, OP')"
      using Cons.IH [of "counter + 1" "changed + 1" s1] h' by fastforce
    with True show ?thesis
      by (simp add: m h h' Let_def add.assoc)
  next
    case False
    obtain OP' where
      "pass_sweep P iter tot ms (counter + 1) changed (s1, ?OP1 @ [Str ''\<newline>'']) =
       (changed + of_nat (changes (doModulePass P) (map fst ms) s1), s2, OP')"
      using Cons.IH [of "counter + 1" changed s1] h' by fastforce
    with False show ?thesis
      by (simp add: m h h' Let_def)
  qed
qed

lemma changes_le_length: "changes d Ms s \<le> length Ms"
proof (induction Ms arbitrary: s)
  case Nil
  show ?case by simp
next
  case (Cons M Ms)
  obtain r s1 where h: "d M s = (r, s1)" by (cases "d M s")
  from Cons.IH [of s1] show ?case
    by (simp add: h)
qed

lemma sweep_changes: "fst (sweep d Ms s) \<longleftrightarrow> 0 < changes d Ms s"
proof (induction Ms arbitrary: s)
  case Nil
  show ?case by simp
next
  case (Cons M Ms)
  obtain r s1 where h: "d M s = (r, s1)" by (cases "d M s")
  from Cons.IH [of s1] show ?case
    by (simp add: h split: prod.splits)
qed

lemma changed_word:
  assumes "length Ms < 2 ^ 32"
  shows "(of_nat (changes d Ms s) :: unsigned) \<noteq> 0 \<longleftrightarrow> fst (sweep d Ms s)"
proof -
  have lt: "changes d Ms s < 2 ^ LENGTH(32)"
    using changes_le_length [of d Ms s] assms by simp
  show ?thesis
  proof (cases "changes d Ms s = 0")
    case True
    then show ?thesis by (simp add: sweep_changes)
  next
    case False
    then have "0 < changes d Ms s" by simp
    from of_nat_neq_0 [OF this lt] this show ?thesis
      by (simp add: sweep_changes)
  qed
qed



lemma init_loop_False: "init_loop d ms False st = Some st"
  by (subst init_loop.simps) simp

lemma init_loop_True:
  "init_loop d ms True st =
     (case init_sweep d ms False st of (again', st') \<Rightarrow> init_loop d ms again' st')"
  by (subst init_loop.simps) simp

lemma init_loop_sound:
  fixes st st' :: "'s \<times> token list"
  assumes "init_loop d ms again st = Some st'"
  shows "if again then until_no_change (sweep d (map fst ms)) (fst st) (fst st') else st' = st"
proof (rule init_loop.raw_induct
    [where P = "\<lambda>d ms again st st'.
       if again then until_no_change (sweep d (map fst ms)) (fst st) (fst st') else st' = st",
     OF _ assms])
  fix loop d ms again and st st' :: "'s \<times> token list"
  assume IH: "\<And>d ms again st st'. loop d ms again st = Some st' \<Longrightarrow>
      (if again then until_no_change (sweep d (map fst ms)) (fst st) (fst st') else st' = st)"
    and body: "(if again
      then case init_sweep d ms False st of (again', st') \<Rightarrow> loop d ms again' st'
      else Some st) = Some st'"
  show "if again then until_no_change (sweep d (map fst ms)) (fst st) (fst st') else st' = st"
  proof (cases again)
    case False
    with body show ?thesis by simp
  next
    case True
    obtain s OP where st: "st = (s, OP)" by (cases st)
    let ?r = "fst (sweep d (map fst ms) s)" and ?s1 = "snd (sweep d (map fst ms) s)"
    obtain OP1 where sw: "init_sweep d ms False (s, OP) = (?r, ?s1, OP1)"
      using init_sweep_sweep [of d ms False s OP] by auto
    from body True have rec: "loop d ms ?r (?s1, OP1) = Some st'"
      by (simp add: st sw)
    have ih: "if ?r then until_no_change (sweep d (map fst ms)) ?s1 (fst st')
              else st' = (?s1, OP1)"
      using IH [OF rec] by (simp cong: if_cong)
    show ?thesis
    proof (cases ?r)
      case r: True
      then have "sweep d (map fst ms) s = (True, ?s1)"
        by (metis prod.collapse)
      with ih r True st show ?thesis
        by (auto intro: until_no_change.again)
    next
      case r: False
      then have "sweep d (map fst ms) s = (False, ?s1)"
        by (metis prod.collapse)
      with ih r True st show ?thesis
        by (auto intro: until_no_change.quiet)
    qed
  qed
qed

lemma init_loop_complete:
  "until_no_change f s s' \<Longrightarrow> f = sweep d (map fst ms) \<Longrightarrow>
   \<exists>OP'. init_loop d ms True (s, OP) = Some (s', OP')"
proof (induction arbitrary: OP rule: until_no_change.induct)
  case (quiet f s s')
  obtain OP1 where "init_sweep d ms False (s, OP) = (False, s', OP1)"
    using init_sweep_sweep [of d ms False s OP] quiet by auto
  then show ?case
    by (simp add: init_loop_True init_loop_False)
next
  case (again f s s1 s')
  obtain OP1 where sw: "init_sweep d ms False (s, OP) = (True, s1, OP1)"
    using init_sweep_sweep [of d ms False s OP] again by auto
  from again.IH [OF again.prems, of OP1] sw show ?case
    by (simp add: init_loop_True)
qed


lemma fin_loop_False: "fin_loop d ms False s = Some s"
  by (subst fin_loop.simps) simp

lemma fin_loop_True:
  "fin_loop d ms True s =
     (case fin_sweep d ms False s of (again', s') \<Rightarrow> fin_loop d ms again' s')"
  by (subst fin_loop.simps) simp

lemma fin_loop_sound:
  fixes s s' :: 's
  assumes "fin_loop d ms again s = Some s'"
  shows "if again then until_no_change (sweep d (map fst ms)) s s' else s' = s"
proof (rule fin_loop.raw_induct
    [where P = "\<lambda>d ms again s s'.
       if again then until_no_change (sweep d (map fst ms)) s s' else s' = s",
     OF _ assms])
  fix loop d ms again and s s' :: 's
  assume IH: "\<And>d ms again s s'. loop d ms again s = Some s' \<Longrightarrow>
      (if again then until_no_change (sweep d (map fst ms)) s s' else s' = s)"
    and body: "(if again
      then case fin_sweep d ms False s of (again', s') \<Rightarrow> loop d ms again' s'
      else Some s) = Some s'"
  show "if again then until_no_change (sweep d (map fst ms)) s s' else s' = s"
  proof (cases again)
    case False
    with body show ?thesis by simp
  next
    case True
    obtain r s1 where sw: "sweep d (map fst ms) s = (r, s1)"
      by (cases "sweep d (map fst ms) s")
    from body True have rec: "loop d ms r s1 = Some s'"
      by (simp add: fin_sweep_sweep sw)
    from IH [OF rec] sw True show ?thesis
      by (cases r) (auto intro: until_no_change.intros)
  qed
qed

lemma fin_loop_complete:
  "until_no_change f s s' \<Longrightarrow> f = sweep d (map fst ms) \<Longrightarrow> fin_loop d ms True s = Some s'"
proof (induction rule: until_no_change.induct)
  case (quiet f s s')
  then show ?case
    by (simp add: fin_loop_True fin_sweep_sweep fin_loop_False)
next
  case (again f s s1 s')
  then show ?case
    by (simp add: fin_loop_True fin_sweep_sweep)
qed

lemma pass_loop_0: "pass_loop P ms iter 0 st = Some st"
  by (subst pass_loop.simps) simp

lemma pass_loop_changed:
  "changed \<noteq> 0 \<Longrightarrow>
   pass_loop P ms iter changed st =
     (case pass_sweep P (iter + 1) (of_nat (length ms)) ms 0 0 st of
        (changed', s', OP') \<Rightarrow>
          pass_loop P ms (iter + 1) changed'
            (s', OP' @ [Str ''['', Str (ID P), Str ''] Updated in '', Num (unat changed'),
                        Str '' modules.\<newline>'']))"
  by (subst pass_loop.simps) simp

lemma pass_sweep_from_0:
  assumes "length ms < 2 ^ 32"
  shows "\<exists>changed' OP'.
           pass_sweep P iter tot ms counter 0 (s, OP) =
             (changed', snd (sweep (doModulePass P) (map fst ms) s), OP') \<and>
           (changed' \<noteq> 0 \<longleftrightarrow> fst (sweep (doModulePass P) (map fst ms) s))"
proof -
  from assms have "length (map fst ms) < 2 ^ 32" by simp
  from changed_word [OF this, of "doModulePass P" s]
       pass_sweep_sweep [of P iter tot ms counter 0 s OP]
  show ?thesis by auto
qed

lemma pass_loop_sound:
  fixes st st' :: "'s \<times> token list"
  assumes "pass_loop P ms iter changed st = Some st'" and len: "length ms < 2 ^ 32"
  shows "if changed \<noteq> 0
         then until_no_change (sweep (doModulePass P) (map fst ms)) (fst st) (fst st')
         else st' = st"
proof -
  let ?Q = "\<lambda>P ms (changed :: unsigned) (st :: 's \<times> token list) st'.
      length ms < 2 ^ 32 \<longrightarrow>
      (if changed \<noteq> 0
       then until_no_change (sweep (doModulePass P) (map fst ms)) (fst st) (fst st')
       else st' = st)"
  let ?Pa = "\<lambda>x st'. case x of ((((P, ms), iter :: unsigned), changed), st) \<Rightarrow> ?Q P ms changed st st'"
  have "?Pa ((((P, ms), iter), changed), st) st'"
  proof (rule pass_loop.raw_induct [where Pa = ?Pa, OF _ assms(1)])
    fix loop P ms and iter changed :: unsigned and st st' :: "'s \<times> token list"
    assume IH: "\<And>P ms iter changed st st'. loop P ms iter changed st = Some st' \<Longrightarrow>
        ?Pa ((((P, ms), iter), changed), st) st'"
      and body: "(if changed \<noteq> 0
        then case pass_sweep P (iter + 1) (of_nat (length ms)) ms 0 0 st of
               (changed', s', OP') \<Rightarrow>
                 loop P ms (iter + 1) changed'
                   (s', OP' @ [Str ''['', Str (ID P), Str ''] Updated in '', Num (unat changed'),
                               Str '' modules.\<newline>''])
        else Some st) = Some st'"
    have "?Q P ms changed st st'"
    proof
      assume len: "length ms < 2 ^ 32"
      show "if changed \<noteq> 0
            then until_no_change (sweep (doModulePass P) (map fst ms)) (fst st) (fst st')
            else st' = st"
      proof (cases "changed = 0")
        case True
        with body show ?thesis by simp
      next
        case False
        obtain s OP where st: "st = (s, OP)" by (cases st)
        obtain r s1 where sw: "sweep (doModulePass P) (map fst ms) s = (r, s1)"
          by (cases "sweep (doModulePass P) (map fst ms) s")
        obtain changed' OP' where
          ps: "pass_sweep P (iter + 1) (of_nat (length ms)) ms 0 0 (s, OP) = (changed', s1, OP')"
          and ch: "changed' \<noteq> 0 \<longleftrightarrow> r"
          using pass_sweep_from_0 [OF len, of P "iter + 1" "of_nat (length ms)" 0 s OP] sw
          by auto
        from body False
        have rec: "loop P ms (iter + 1) changed'
            (s1, OP' @ [Str ''['', Str (ID P), Str ''] Updated in '', Num (unat changed'),
                        Str '' modules.\<newline>'']) = Some st'"
          by (simp add: st ps)
        from IH [OF rec] len
        have ih: "if changed' \<noteq> 0
              then until_no_change (sweep (doModulePass P) (map fst ms)) s1 (fst st')
              else fst st' = s1"
          by (auto split: if_splits)
        from ih ch sw False st show ?thesis
          by (cases r) (auto intro: until_no_change.intros)
      qed
    qed
    then show "?Pa ((((P, ms), iter), changed), st) st'"
      by simp
  qed
  with len show ?thesis
    by simp
qed

lemma pass_loop_complete:
  "until_no_change f s s' \<Longrightarrow> f = sweep (doModulePass P) (map fst ms) \<Longrightarrow>
   length ms < 2 ^ 32 \<Longrightarrow> changed \<noteq> 0 \<Longrightarrow>
   \<exists>OP'. pass_loop P ms iter changed (s, OP) = Some (s', OP')"
proof (induction arbitrary: iter changed OP rule: until_no_change.induct)
  case (quiet f s s')
  obtain changed' OP' where
    "pass_sweep P (iter + 1) (of_nat (length ms)) ms 0 0 (s, OP) = (changed', s', OP')"
    "changed' = 0"
    using pass_sweep_from_0 [OF quiet.prems(2), of P "iter + 1" "of_nat (length ms)" 0 s OP]
      quiet.hyps quiet.prems(1)
    by auto
  with quiet.prems(3) show ?case
    by (simp add: pass_loop_changed pass_loop_0)
next
  case (again f s s1 s')
  obtain changed' OP' where
    ps: "pass_sweep P (iter + 1) (of_nat (length ms)) ms 0 0 (s, OP) = (changed', s1, OP')"
    and ch: "changed' \<noteq> 0"
    using pass_sweep_from_0 [OF again.prems(2), of P "iter + 1" "of_nat (length ms)" 0 s OP]
      again.hyps again.prems(1)
    by auto
  from again.IH [OF again.prems(1,2) ch] ps again.prems(3) show ?case
    by (simp add: pass_loop_changed)
qed

text \<open>
  C2. On a list of fewer than \<open>2 ^ 32\<close> modules (the counter \<^verbatim>\<open>changed\<close> is a 32-bit
  \<^verbatim>\<open>unsigned\<close>), \<^verbatim>\<open>run\<close> returns with the state \<open>s'\<close> exactly when three phases,
  in this order, lead from \<open>s\<close> to \<open>s'\<close>: \<^verbatim>\<open>doInitialization\<close> is swept over all
  modules until a full sweep reports no change, then \<^verbatim>\<open>doModulePass\<close> likewise, then
  \<^verbatim>\<open>doFinalization\<close> likewise. The hooks are arbitrary, so the calls that \<^verbatim>\<open>run\<close>
  makes are those of the three phases and no others.
\<close>

theorem run_three_phases:
  assumes len: "length ms < 2 ^ 32"
  shows "(\<exists>OP'. run P ms (s, OP) = Some (s', OP')) \<longleftrightarrow>
         (\<exists>s1 s2.
            until_no_change (sweep (doInitialization P) (map fst ms)) s s1 \<and>
            until_no_change (sweep (doModulePass P) (map fst ms)) s1 s2 \<and>
            until_no_change (sweep (doFinalization P) (map fst ms)) s2 s')"
    (is "?L \<longleftrightarrow> ?R")
proof
  assume ?L
  then obtain OP' where r: "run P ms (s, OP) = Some (s', OP')" ..
  from r obtain s1 OP1 where
    i: "init_loop (doInitialization P) ms True
          (s, OP @ [Str ''['', Str (ID P), Str ''] Initializing '', Num (length ms),
                    Str '' modules '']) = Some (s1, OP1)"
    and r1: "Option.bind (pass_loop P ms 0 1 (s1, OP1 @ [Str ''\<newline>'']))
          (\<lambda>(s2, OP2).
             let OP3 = OP2 @ [Str ''['', Str (ID P), Str ''] Postprocessing ...\<newline>'']
             in Option.bind (fin_loop (doFinalization P) ms True s2)
                  (\<lambda>s3. Some (s3, OP3 @ [Str ''['', Str (ID P),
                                           Str ''] Done!\<newline>\<newline>'']))) = Some (s', OP')"
    by (auto simp: run_def bind_eq_Some_conv)
  from r1 obtain s2 OP2 where
    p: "pass_loop P ms 0 1 (s1, OP1 @ [Str ''\<newline>'']) = Some (s2, OP2)"
    and f: "fin_loop (doFinalization P) ms True s2 = Some s'"
    by (auto simp: bind_eq_Some_conv Let_def)
  from init_loop_sound [OF i] pass_loop_sound [OF p len] fin_loop_sound [OF f]
  show ?R by auto
next
  assume ?R
  then obtain s1 s2 where
    i: "until_no_change (sweep (doInitialization P) (map fst ms)) s s1" and
    p: "until_no_change (sweep (doModulePass P) (map fst ms)) s1 s2" and
    f: "until_no_change (sweep (doFinalization P) (map fst ms)) s2 s'"
    by blast
  obtain OP1 where
    1: "init_loop (doInitialization P) ms True
          (s, OP @ [Str ''['', Str (ID P), Str ''] Initializing '', Num (length ms),
                    Str '' modules '']) = Some (s1, OP1)"
    using init_loop_complete [OF i refl] by blast
  obtain OP2 where 2: "pass_loop P ms 0 1 (s1, OP1 @ [Str ''\<newline>'']) = Some (s2, OP2)"
    using pass_loop_complete [OF p refl len, of 1 0 "OP1 @ [Str ''\<newline>'']"] by auto
  have 3: "fin_loop (doFinalization P) ms True s2 = Some s'"
    using fin_loop_complete [OF f refl] .
  show ?L
    by (simp add: run_def 1 2 3 Let_def)
qed

lemma budget_init:
  "until_no_change (sweep (budget_hook ''init'') [0, 1]) (1, [])
     (0, [(''init'', 0), (''init'', 1), (''init'', 0), (''init'', 1)])"
proof (rule until_no_change.again)
  show "sweep (budget_hook ''init'') [0, 1] (1, []) = (True, 0, [(''init'', 0), (''init'', 1)])"
    by (simp add: budget_hook_def)
  show "until_no_change (sweep (budget_hook ''init'') [0, 1]) (0, [(''init'', 0), (''init'', 1)])
     (0, [(''init'', 0), (''init'', 1), (''init'', 0), (''init'', 1)])"
    by (rule until_no_change.quiet) (simp add: budget_hook_def)
qed

theorem run_three_phases_witness:
  "length [(0 :: nat, ''a.bc''), (1, ''b.bc'')] < 2 ^ 32 \<and>
   (\<exists>OP'. run budget_pass [(0, ''a.bc''), (1, ''b.bc'')] ((1, []), []) =
      Some ((0, [(''init'', 0), (''init'', 1), (''init'', 0), (''init'', 1),
                 (''pass'', 0), (''pass'', 1), (''fin'', 0), (''fin'', 1)]), OP'))"
proof -
  have len: "length [(0 :: nat, ''a.bc''), (1, ''b.bc'')] < 2 ^ 32"
    by simp
  let ?s1 = "(0 :: nat, [(''init'', 0 :: nat), (''init'', 1), (''init'', 0), (''init'', 1)])"
  let ?s2 = "(0 :: nat, [(''init'', 0 :: nat), (''init'', 1), (''init'', 0), (''init'', 1),
                 (''pass'', 0), (''pass'', 1)])"
  let ?s3 = "(0 :: nat, [(''init'', 0 :: nat), (''init'', 1), (''init'', 0), (''init'', 1),
                 (''pass'', 0), (''pass'', 1), (''fin'', 0), (''fin'', 1)])"
  have i: "until_no_change (sweep (doInitialization budget_pass)
             (map fst [(0 :: nat, ''a.bc''), (1, ''b.bc'')])) (1, []) ?s1"
    using budget_init by (simp add: budget_pass_def)
  have p: "until_no_change (sweep (doModulePass budget_pass)
             (map fst [(0 :: nat, ''a.bc''), (1, ''b.bc'')])) ?s1 ?s2"
    by (rule until_no_change.quiet) (simp add: budget_pass_def budget_hook_def)
  have f: "until_no_change (sweep (doFinalization budget_pass)
             (map fst [(0 :: nat, ''a.bc''), (1, ''b.bc'')])) ?s2 ?s3"
    by (rule until_no_change.quiet) (simp add: budget_pass_def budget_hook_def)
  from run_three_phases [OF len, of budget_pass "(1, [])" "[]" ?s3] i p f len
  show ?thesis
    by blast
qed

subsection \<open>main: loading the modules\<close>

lemma Modules_load_modules:
  "Modules (fst (load_modules parse argv0 files (G, OP))) = Modules G @ loaded parse files"
proof (induction files arbitrary: G OP)
  case Nil
  show ?case by (simp add: loaded_def List.map_filter_simps)
next
  case (Cons f files)
  show ?case
  proof (cases "parse f")
    case None
    with Cons.IH show ?thesis
      by (simp add: loaded_def List.map_filter_simps)
  next
    case (Some M)
    with Cons.IH show ?thesis
      by (simp add: loaded_def List.map_filter_simps)
  qed
qed

lemma OP_load_modules:
  "snd (load_modules parse argv0 files (G, OP)) =
     OP @ concat (map (load_error argv0) (filter (\<lambda>f. parse f = None) files))"
proof (induction files arbitrary: G OP)
  case Nil
  show ?case by simp
next
  case (Cons f files)
  show ?case
  proof (cases "parse f")
    case None
    with Cons.IH show ?thesis
      by (simp add: load_error_def)
  next
    case (Some M)
    with Cons.IH show ?thesis
      by simp
  qed
qed

lemma fst_load_modules_filter:
  "fst (load_modules parse argv0 (filter (\<lambda>f. parse f \<noteq> None) files) (G, OP2)) =
   fst (load_modules parse argv0 files (G, OP))"
proof (induction files arbitrary: G OP OP2)
  case Nil
  show ?case by simp
next
  case (Cons f files)
  show ?case
  proof (cases "parse f")
    case None
    with Cons.IH show ?thesis
      by simp
  next
    case (Some M)
    with Cons.IH show ?thesis
      by simp
  qed
qed

subsection \<open>The stream does not steer the analysis\<close>

lemma init_loop_indep:
  fixes st st' :: "'s \<times> token list"
  assumes "init_loop d ms again st = Some st'"
  shows "\<exists>OP2'. init_loop d ms again (fst st, OP2) = Some (fst st', OP2')"
proof -
  let ?P = "\<lambda>d ms again (st :: 's \<times> token list) (st' :: 's \<times> token list).
      \<forall>OP2. \<exists>OP2'. init_loop d ms again (fst st, OP2) = Some (fst st', OP2')"
  have "?P d ms again st st'"
  proof (rule init_loop.raw_induct [where P = ?P, OF _ assms])
    fix loop d ms again and st st' :: "'s \<times> token list"
    assume IH: "\<And>d ms again st st'. loop d ms again st = Some st' \<Longrightarrow> ?P d ms again st st'"
      and body: "(if again
        then case init_sweep d ms False st of (again', st') \<Rightarrow> loop d ms again' st'
        else Some st) = Some st'"
    show "?P d ms again st st'"
    proof (cases again)
      case False
      with body show ?thesis
        by (simp add: init_loop_False)
    next
      case True
      obtain s OP where st: "st = (s, OP)" by (cases st)
      let ?r = "fst (sweep d (map fst ms) s)" and ?s1 = "snd (sweep d (map fst ms) s)"
      obtain OP1 where sw: "init_sweep d ms False (s, OP) = (?r, ?s1, OP1)"
        using init_sweep_sweep [of d ms False s OP] by auto
      from body True have rec: "loop d ms ?r (?s1, OP1) = Some st'"
        by (simp add: st sw)
      show ?thesis
      proof
        fix OP2
        obtain OP3 where sw2: "init_sweep d ms False (s, OP2) = (?r, ?s1, OP3)"
          using init_sweep_sweep [of d ms False s OP2] by auto
        from IH [OF rec] obtain OP2' where
          "init_loop d ms ?r (?s1, OP3) = Some (fst st', OP2')"
          by fastforce
        with True show "\<exists>OP2'. init_loop d ms again (fst st, OP2) = Some (fst st', OP2')"
          by (simp add: st init_loop_True sw2)
      qed
    qed
  qed
  then show ?thesis
    by blast
qed

lemma pass_loop_indep:
  fixes st st' :: "'s \<times> token list"
  assumes "pass_loop P ms iter changed st = Some st'"
  shows "\<exists>OP2'. pass_loop P ms iter changed (fst st, OP2) = Some (fst st', OP2')"
proof -
  let ?Q = "\<lambda>P ms (iter :: unsigned) (changed :: unsigned) (st :: 's \<times> token list)
      (st' :: 's \<times> token list).
      \<forall>OP2. \<exists>OP2'. pass_loop P ms iter changed (fst st, OP2) = Some (fst st', OP2')"
  let ?Pa = "\<lambda>x st'. case x of ((((P, ms), iter), changed), st) \<Rightarrow> ?Q P ms iter changed st st'"
  have "?Pa ((((P, ms), iter), changed), st) st'"
  proof (rule pass_loop.raw_induct [where Pa = ?Pa, OF _ assms])
    fix loop P ms and iter changed :: unsigned and st st' :: "'s \<times> token list"
    assume IH: "\<And>P ms iter changed st st'. loop P ms iter changed st = Some st' \<Longrightarrow>
        ?Pa ((((P, ms), iter), changed), st) st'"
      and body: "(if changed \<noteq> 0
        then case pass_sweep P (iter + 1) (of_nat (length ms)) ms 0 0 st of
               (changed', s', OP') \<Rightarrow>
                 loop P ms (iter + 1) changed'
                   (s', OP' @ [Str ''['', Str (ID P), Str ''] Updated in '', Num (unat changed'),
                               Str '' modules.\<newline>''])
        else Some st) = Some st'"
    have "?Q P ms iter changed st st'"
    proof (cases "changed = 0")
      case True
      with body show ?thesis
        by (simp add: pass_loop_0)
    next
      case False
      obtain s OP where st: "st = (s, OP)" by (cases st)
      let ?c = "0 + of_nat (changes (doModulePass P) (map fst ms) s) :: unsigned"
      let ?s1 = "snd (sweep (doModulePass P) (map fst ms) s)"
      obtain OP1 where
        ps: "pass_sweep P (iter + 1) (of_nat (length ms)) ms 0 0 (s, OP) = (?c, ?s1, OP1)"
        using pass_sweep_sweep [of P "iter + 1" "of_nat (length ms)" ms 0 0 s OP] by auto
      from body False
      have rec: "loop P ms (iter + 1) ?c
          (?s1, OP1 @ [Str ''['', Str (ID P), Str ''] Updated in '', Num (unat ?c),
                       Str '' modules.\<newline>'']) = Some st'"
        by (simp add: st ps)
      show ?thesis
      proof
        fix OP2
        obtain OP3 where
          ps2: "pass_sweep P (iter + 1) (of_nat (length ms)) ms 0 0 (s, OP2) = (?c, ?s1, OP3)"
          using pass_sweep_sweep [of P "iter + 1" "of_nat (length ms)" ms 0 0 s OP2] by auto
        from IH [OF rec] obtain OP2' where
          "pass_loop P ms (iter + 1) ?c
             (?s1, OP3 @ [Str ''['', Str (ID P), Str ''] Updated in '', Num (unat ?c),
                          Str '' modules.\<newline>'']) = Some (fst st', OP2')"
          by fastforce
        with False
        show "\<exists>OP2'. pass_loop P ms iter changed (fst st, OP2) = Some (fst st', OP2')"
          by (simp add: st pass_loop_changed ps2)
      qed
    qed
    then show "?Pa ((((P, ms), iter), changed), st) st'"
      by simp
  qed
  then show ?thesis
    by simp
qed

lemma run_indep:
  assumes "run P ms (s, OP) = Some (s', OP')"
  shows "\<exists>OP2'. run P ms (s, OP2) = Some (s', OP2')"
proof -
  from assms obtain s1 OP1 where
    i: "init_loop (doInitialization P) ms True
          (s, OP @ [Str ''['', Str (ID P), Str ''] Initializing '', Num (length ms),
                    Str '' modules '']) = Some (s1, OP1)"
    and r1: "Option.bind (pass_loop P ms 0 1 (s1, OP1 @ [Str ''\<newline>'']))
          (\<lambda>(s2, OP2).
             let OP3 = OP2 @ [Str ''['', Str (ID P), Str ''] Postprocessing ...\<newline>'']
             in Option.bind (fin_loop (doFinalization P) ms True s2)
                  (\<lambda>s3. Some (s3, OP3 @ [Str ''['', Str (ID P),
                                           Str ''] Done!\<newline>\<newline>'']))) = Some (s', OP')"
    by (auto simp: run_def bind_eq_Some_conv)
  from r1 obtain s2 OP2a where
    p: "pass_loop P ms 0 1 (s1, OP1 @ [Str ''\<newline>'']) = Some (s2, OP2a)"
    and f: "fin_loop (doFinalization P) ms True s2 = Some s'"
    by (auto simp: bind_eq_Some_conv Let_def)
  from init_loop_indep [OF i, of "OP2 @ [Str ''['', Str (ID P), Str ''] Initializing '',
      Num (length ms), Str '' modules '']"]
  obtain OP1' where
    i': "init_loop (doInitialization P) ms True
          (s, OP2 @ [Str ''['', Str (ID P), Str ''] Initializing '', Num (length ms),
                     Str '' modules '']) = Some (s1, OP1')"
    by auto
  from pass_loop_indep [OF p, of "OP1' @ [Str ''\<newline>'']"]
  obtain OP2' where p': "pass_loop P ms 0 1 (s1, OP1' @ [Str ''\<newline>'']) = Some (s2, OP2')"
    by auto
  show ?thesis
    by (simp add: run_def i' p' f Let_def)
qed

lemma run_pass_indep:
  assumes "run_pass ctor P (G, OP) = Some (G', OP')"
  shows "\<exists>OP2'. run_pass ctor P (G, OP2) = Some (G', OP2')"
  using assms run_indep [of P "Modules (ctor G)" "ctor G" OP G' OP' OP2]
  by (simp add: run_pass_def Let_def)

lemma missing_checks_block_indep:
  assumes "missing_checks_block prog (G, OP) = Some (G', OP')"
  shows "\<exists>OP2'. missing_checks_block prog (G, OP2) = Some (G', OP2')"
proof -
  from assms obtain G1 OP1 G2 OP2a G3 where
    pa: "run_pass (PAPass_ctor prog) (PAPass prog) (G, OP) = Some (G1, OP1)" and
    pb: "run_pass (SCPass_ctor prog) (SecurityChecksPass (SCPass prog)) (G1, OP1) = Some (G2, OP2a)" and
    pc: "run_pass (MCPass_ctor prog) (MissingChecksPass (MCPass prog)) (G2, OP2a) = Some (G3, OP')" and
    pd: "G' = processResults prog G3"
    by (auto simp: missing_checks_block_def bind_eq_Some_conv)
  from run_pass_indep [OF pa, of OP2] obtain OP1' where
    pa': "run_pass (PAPass_ctor prog) (PAPass prog) (G, OP2) = Some (G1, OP1')" by auto
  from run_pass_indep [OF pb, of OP1'] obtain OP2' where
    pb': "run_pass (SCPass_ctor prog) (SecurityChecksPass (SCPass prog)) (G1, OP1') = Some (G2, OP2')"
    by auto
  from run_pass_indep [OF pc, of OP2'] obtain OP3' where
    pc': "run_pass (MCPass_ctor prog) (MissingChecksPass (MCPass prog)) (G2, OP2') = Some (G3, OP3')"
    by auto
  show ?thesis
    by (simp add: missing_checks_block_def pa' pb' pc' pd)
qed

lemma main_workflow_indep:
  assumes "main_workflow prog fs exepath sc mc (G, OP) = Some (G', OP')"
  shows "\<exists>OP2'. main_workflow prog fs exepath sc mc (G, OP2) = Some (G', OP2')"
proof -
  from assms obtain G1 OP1 G2 OP2a G3 OP3 where
    pa: "run_pass (TIPass_ctor prog) (TIPass prog) (LoadStaticData fs exepath G, OP) = Some (G1, OP1)" and
    pb: "run_pass (CGPass_ctor prog) (CGPass prog) (BuildTypeStructMap prog G1, OP1) = Some (G2, OP2a)" and
    pc: "(if sc then run_pass (SCPass_ctor prog) (SecurityChecksPass (SCPass prog)) (G2, OP2a)
         else Some (G2, OP2a)) = Some (G3, OP3)" and
    pd: "(if mc then missing_checks_block prog (G3, OP3) else Some (G3, OP3)) = Some (G', OP')"
    by (auto simp: main_workflow_def bind_eq_Some_conv)
  from run_pass_indep [OF pa, of OP2] obtain OP1' where
    pa': "run_pass (TIPass_ctor prog) (TIPass prog) (LoadStaticData fs exepath G, OP2) = Some (G1, OP1')"
    by auto
  from run_pass_indep [OF pb, of OP1'] obtain OP2' where
    pb': "run_pass (CGPass_ctor prog) (CGPass prog) (BuildTypeStructMap prog G1, OP1') = Some (G2, OP2')"
    by auto
  have "\<exists>OP3'. (if sc then run_pass (SCPass_ctor prog) (SecurityChecksPass (SCPass prog)) (G2, OP2')
         else Some (G2, OP2')) = Some (G3, OP3')"
  proof (cases sc)
    case True
    with pc run_pass_indep [of "SCPass_ctor prog" "SecurityChecksPass (SCPass prog)" G2 OP2a G3 OP3 OP2']
    show ?thesis by simp
  next
    case False
    with pc show ?thesis by simp
  qed
  then obtain OP3' where
    pc': "(if sc then run_pass (SCPass_ctor prog) (SecurityChecksPass (SCPass prog)) (G2, OP2')
         else Some (G2, OP2')) = Some (G3, OP3')" ..
  have "\<exists>OP4'. (if mc then missing_checks_block prog (G3, OP3') else Some (G3, OP3')) = Some (G', OP4')"
  proof (cases mc)
    case True
    with pd missing_checks_block_indep [of prog G3 OP3 G' OP' OP3']
    show ?thesis by simp
  next
    case False
    with pd show ?thesis by simp
  qed
  then obtain OP4' where
    pd': "(if mc then missing_checks_block prog (G3, OP3') else Some (G3, OP3')) = Some (G', OP4')" ..
  show ?thesis
    using pc' pd' by (simp add: main_workflow_def pa' pb')
qed

lemma main_workflow_fst:
  "map_option fst (main_workflow prog fs exepath sc mc (G, OP)) =
   map_option fst (main_workflow prog fs exepath sc mc (G, OP2))"
proof (cases "main_workflow prog fs exepath sc mc (G, OP)")
  case None
  show ?thesis
  proof (cases "main_workflow prog fs exepath sc mc (G, OP2)")
    case n: None
    with None show ?thesis by simp
  next
    case (Some r)
    obtain G' OP' where "r = (G', OP')" by (cases r)
    with Some main_workflow_indep [of prog fs exepath sc mc G OP2 G' OP' OP] None
    show ?thesis by simp
  qed
next
  case (Some r)
  obtain G' OP' where "r = (G', OP')" by (cases r)
  with Some main_workflow_indep [of prog fs exepath sc mc G OP G' OP' OP2]
  show ?thesis by auto
qed

subsection \<open>main: the order of the passes and the report\<close>

lemma log_run_result:
  "map_option (\<lambda>(G, OP). (Log G, Modules G, NumSecurityChecks G, NumCondStatements G, take 7 OP,
       Str ''############## Result Statistics ##############\<newline>'' \<in> set OP)) log_run =
   Some ([''TypeInitializer'', ''BuildTypeStructMap'', ''CallGraph'', ''PointerAnalysis'',
          ''SecurityChecks'', ''MissingChecks'', ''processResults''],
         [(0, ''a.bc'')], 1, 2,
         [Str ''Total '', Num 2, Str '' file(s)\<newline>''] @
           load_error ''kanalyzer'' ''missing.bc'', False)"
  by (simp add: log_run_def main_def main_workflow_def missing_checks_block_def run_pass_def
      run_def init_loop_True init_loop_False pass_loop_changed pass_loop_0 fin_loop_True
      fin_loop_False log_program_def log_pass_def counting_pass_def LoggedCtx_init_def
      LoadStaticData_def Let_def strdup_def load_error_def SecurityChecksPass_def
      MissingChecksPass_def)




lemma main_workflow_chain:
  "main_workflow prog fs exepath sc mc (G, OP) = Some st' \<longleftrightarrow>
   (\<exists>st_TI st_CG st_SC0.
      run_pass (TIPass_ctor prog) (TIPass prog) (LoadStaticData fs exepath G, OP) = Some st_TI \<and>
      run_pass (CGPass_ctor prog) (CGPass prog)
        (BuildTypeStructMap prog (fst st_TI), snd st_TI) = Some st_CG \<and>
      (if sc then run_pass (SCPass_ctor prog) (SecurityChecksPass (SCPass prog)) st_CG
       else Some st_CG) = Some st_SC0 \<and>
      (if mc then missing_checks_block prog st_SC0 else Some st_SC0) = Some st')"
  by (auto simp: main_workflow_def bind_eq_Some_conv split: prod.splits)

lemma missing_checks_block_chain:
  "missing_checks_block prog st = Some (G', OP') \<longleftrightarrow>
   (\<exists>st_PA st_SC G_MC.
      run_pass (PAPass_ctor prog) (PAPass prog) st = Some st_PA \<and>
      run_pass (SCPass_ctor prog) (SecurityChecksPass (SCPass prog)) st_PA = Some st_SC \<and>
      run_pass (MCPass_ctor prog) (MissingChecksPass (MCPass prog)) st_SC = Some (G_MC, OP') \<and>
      G' = processResults prog G_MC)"
  by (auto simp: missing_checks_block_def bind_eq_Some_conv)




text \<open>
  C3. With missing-check detection enabled, \<^verbatim>\<open>main\<close> returns exactly when the
  following steps, each starting from the state the one before it left, all return:
  the modules are loaded and the static tables set; the type initializer runs and the
  type map is built; the call-graph pass runs (its three phases, to their fixpoints);
  the classifier runs here as well when \<^verbatim>\<open>-sc\<close> is given; pointer analysis runs; the
  classifier (\<^verbatim>\<open>SecurityChecksPass\<close>) runs; the detector (\<^verbatim>\<open>MissingChecksPass\<close>) runs;
  \<^verbatim>\<open>processResults\<close> is called. The detector starts from the state the classifier
  left, which starts from the state pointer analysis left, which comes after the call
  graph.
\<close>

theorem main_MissingChecks_order:
  "main prog fs exepath argv0 InputFilenames SecurityChecks True (GlobalCtx, OP) =
     Some (GlobalCtx', OP') \<longleftrightarrow>
   (\<exists>st_TI st_CG st_SC0 st_PA st_SC G_MC.
      run_pass (TIPass_ctor prog) (TIPass prog)
        (LoadStaticData fs exepath
           (fst (load_modules (parseIRFile prog) argv0 InputFilenames
                   (GlobalCtx, OP @ [Str ''Total '', Num (length InputFilenames),
                                     Str '' file(s)\<newline>'']))),
         snd (load_modules (parseIRFile prog) argv0 InputFilenames
                (GlobalCtx, OP @ [Str ''Total '', Num (length InputFilenames),
                                  Str '' file(s)\<newline>'']))) = Some st_TI \<and>
      run_pass (CGPass_ctor prog) (CGPass prog)
        (BuildTypeStructMap prog (fst st_TI), snd st_TI) = Some st_CG \<and>
      (if SecurityChecks
       then run_pass (SCPass_ctor prog) (SecurityChecksPass (SCPass prog)) st_CG
       else Some st_CG) = Some st_SC0 \<and>
      run_pass (PAPass_ctor prog) (PAPass prog) st_SC0 = Some st_PA \<and>
      run_pass (SCPass_ctor prog) (SecurityChecksPass (SCPass prog)) st_PA = Some st_SC \<and>
      run_pass (MCPass_ctor prog) (MissingChecksPass (MCPass prog)) st_SC = Some (G_MC, OP') \<and>
      GlobalCtx' = processResults prog G_MC)"
proof -
  obtain G1 OP1 where
    l: "load_modules (parseIRFile prog) argv0 InputFilenames
       (GlobalCtx, OP @ [Str ''Total '', Num (length InputFilenames), Str '' file(s)\<newline>'']) =
       (G1, OP1)"
    by (cases "load_modules (parseIRFile prog) argv0 InputFilenames
       (GlobalCtx, OP @ [Str ''Total '', Num (length InputFilenames), Str '' file(s)\<newline>''])")
  show ?thesis
    unfolding main_def prod.case l fst_conv snd_conv main_workflow_chain
      if_True missing_checks_block_chain
    by blast
qed

text \<open>
  C4. For every list of input files: the files whose parse is null are not added to the
  module list, which receives the other files in order; each of them is reported by one
  diagnostic on \<^verbatim>\<open>OP\<close>; and the run goes on with the whole pipeline on the context
  that loading left: \<^verbatim>\<open>main\<close> returns exactly when the type initializer, the
  call-graph pass, the classifier (with \<^verbatim>\<open>-sc\<close>) and, with \<^verbatim>\<open>-mc\<close>, pointer
  analysis, the classifier, the detector and \<^verbatim>\<open>processResults\<close> return, one after
  the other, from that context. Whether \<^verbatim>\<open>main\<close> returns, and the context it returns
  with, are the same as on the list without the files that do not load.
\<close>

theorem main_skips_unloadable:
  "Modules (fst (load_modules (parseIRFile prog) argv0 InputFilenames (GlobalCtx, OP0))) =
     Modules GlobalCtx @ loaded (parseIRFile prog) InputFilenames \<and>
   snd (load_modules (parseIRFile prog) argv0 InputFilenames (GlobalCtx, OP0)) =
     OP0 @ concat (map (load_error argv0)
                     (filter (\<lambda>f. parseIRFile prog f = None) InputFilenames)) \<and>
   (main prog fs exepath argv0 InputFilenames SecurityChecks MissingChecks (GlobalCtx, OP) =
      Some (GlobalCtx', OP') \<longleftrightarrow>
    (\<exists>st_TI st_CG st_SC0.
       run_pass (TIPass_ctor prog) (TIPass prog)
         (LoadStaticData fs exepath
            (fst (load_modules (parseIRFile prog) argv0 InputFilenames
                    (GlobalCtx, OP @ [Str ''Total '', Num (length InputFilenames),
                                      Str '' file(s)\<newline>'']))),
          snd (load_modules (parseIRFile prog) argv0 InputFilenames
                 (GlobalCtx, OP @ [Str ''Total '', Num (length InputFilenames),
                                   Str '' file(s)\<newline>'']))) = Some st_TI \<and>
       run_pass (CGPass_ctor prog) (CGPass prog)
         (BuildTypeStructMap prog (fst st_TI), snd st_TI) = Some st_CG \<and>
       (if SecurityChecks
        then run_pass (SCPass_ctor prog) (SecurityChecksPass (SCPass prog)) st_CG
        else Some st_CG) = Some st_SC0 \<and>
       (if MissingChecks
        then \<exists>st_PA st_SC G_MC.
               run_pass (PAPass_ctor prog) (PAPass prog) st_SC0 = Some st_PA \<and>
               run_pass (SCPass_ctor prog) (SecurityChecksPass (SCPass prog)) st_PA =
                 Some st_SC \<and>
               run_pass (MCPass_ctor prog) (MissingChecksPass (MCPass prog)) st_SC =
                 Some (G_MC, OP') \<and>
               GlobalCtx' = processResults prog G_MC
        else st_SC0 = (GlobalCtx', OP')))) \<and>
   map_option fst
     (main prog fs exepath argv0 InputFilenames SecurityChecks MissingChecks (GlobalCtx, OP)) =
   map_option fst
     (main prog fs exepath argv0 (filter (\<lambda>f. parseIRFile prog f \<noteq> None) InputFilenames)
        SecurityChecks MissingChecks (GlobalCtx, OP))"
proof -
  let ?files' = "filter (\<lambda>f. parseIRFile prog f \<noteq> None) InputFilenames"
  let ?l = "load_modules (parseIRFile prog) argv0 InputFilenames
       (GlobalCtx, OP @ [Str ''Total '', Num (length InputFilenames), Str '' file(s)\<newline>''])"
  let ?l' = "load_modules (parseIRFile prog) argv0 ?files'
       (GlobalCtx, OP @ [Str ''Total '', Num (length ?files'), Str '' file(s)\<newline>''])"
  have eq: "fst ?l' = fst ?l"
    by (rule fst_load_modules_filter)
  have a: "main prog fs exepath argv0 InputFilenames SecurityChecks MissingChecks (GlobalCtx, OP) =
           main_workflow prog fs exepath SecurityChecks MissingChecks (fst ?l, snd ?l)"
    by (simp add: main_def)
  have b: "main prog fs exepath argv0 ?files' SecurityChecks MissingChecks (GlobalCtx, OP) =
           main_workflow prog fs exepath SecurityChecks MissingChecks (fst ?l', snd ?l')"
    by (simp add: main_def)
  have c: "map_option fst
             (main_workflow prog fs exepath SecurityChecks MissingChecks (fst ?l, snd ?l)) =
           map_option fst
             (main_workflow prog fs exepath SecurityChecks MissingChecks (fst ?l', snd ?l'))"
    unfolding eq by (rule main_workflow_fst)
  have filtered: "map_option fst
          (main prog fs exepath argv0 InputFilenames SecurityChecks MissingChecks (GlobalCtx, OP)) =
        map_option fst
          (main prog fs exepath argv0 ?files' SecurityChecks MissingChecks (GlobalCtx, OP))"
    unfolding a b by (rule c)
  have chain: "main prog fs exepath argv0 InputFilenames SecurityChecks MissingChecks
        (GlobalCtx, OP) = Some (GlobalCtx', OP') \<longleftrightarrow>
    (\<exists>st_TI st_CG st_SC0.
       run_pass (TIPass_ctor prog) (TIPass prog)
         (LoadStaticData fs exepath (fst ?l), snd ?l) = Some st_TI \<and>
       run_pass (CGPass_ctor prog) (CGPass prog)
         (BuildTypeStructMap prog (fst st_TI), snd st_TI) = Some st_CG \<and>
       (if SecurityChecks
        then run_pass (SCPass_ctor prog) (SecurityChecksPass (SCPass prog)) st_CG
        else Some st_CG) = Some st_SC0 \<and>
       (if MissingChecks
        then \<exists>st_PA st_SC G_MC.
               run_pass (PAPass_ctor prog) (PAPass prog) st_SC0 = Some st_PA \<and>
               run_pass (SCPass_ctor prog) (SecurityChecksPass (SCPass prog)) st_PA =
                 Some st_SC \<and>
               run_pass (MCPass_ctor prog) (MissingChecksPass (MCPass prog)) st_SC =
                 Some (G_MC, OP') \<and>
               GlobalCtx' = processResults prog G_MC
        else st_SC0 = (GlobalCtx', OP')))"
  proof (cases MissingChecks)
    case True
    show ?thesis
      unfolding a main_workflow_chain
      by (simp add: True missing_checks_block_chain)
  next
    case False
    show ?thesis
      unfolding a main_workflow_chain
      by (simp add: False)
  qed
  show ?thesis
    using Modules_load_modules [of "parseIRFile prog" argv0 InputFilenames GlobalCtx OP0]
      OP_load_modules [of "parseIRFile prog" argv0 InputFilenames GlobalCtx OP0]
      chain filtered
    by (intro conjI)
qed


subsection \<open>main: a concrete run\<close>

lemma log_run_Some:
  obtains G' OP' where
    "main log_program Map.empty ''/opt/crix/kanalyzer'' ''kanalyzer'' [''missing.bc'', ''a.bc'']
       False True (LoggedCtx_init, []) = Some (G', OP')"
    "Log G' = [''TypeInitializer'', ''BuildTypeStructMap'', ''CallGraph'', ''PointerAnalysis'',
          ''SecurityChecks'', ''MissingChecks'', ''processResults'']"
    "Modules G' = [(0, ''a.bc'')]"
    "NumSecurityChecks G' = 1" "NumCondStatements G' = 2"
    "Str ''############## Result Statistics ##############\<newline>'' \<notin> set OP'"
proof -
  from log_run_result obtain r where r: "log_run = Some r" by (cases log_run) auto
  obtain G' OP' where "r = (G', OP')" by (cases r)
  with r log_run_result show thesis
    by (intro that [of G' OP']) (simp_all add: log_run_def)
qed

theorem main_MissingChecks_order_witness:
  "map_option (\<lambda>(G, OP). Log G) log_run =
     Some [''TypeInitializer'', ''BuildTypeStructMap'', ''CallGraph'', ''PointerAnalysis'',
           ''SecurityChecks'', ''MissingChecks'', ''processResults'']"
proof -
  obtain G' OP' where
    m: "main log_program Map.empty ''/opt/crix/kanalyzer'' ''kanalyzer'' [''missing.bc'', ''a.bc'']
       False True (LoggedCtx_init, []) = Some (G', OP')" and
    l: "Log G' = [''TypeInitializer'', ''BuildTypeStructMap'', ''CallGraph'', ''PointerAnalysis'',
          ''SecurityChecks'', ''MissingChecks'', ''processResults'']"
    by (rule log_run_Some)
  from main_MissingChecks_order [THEN iffD1, OF m] obtain st_SC G_MC where
    "run_pass (MCPass_ctor log_program) (MissingChecksPass (MCPass log_program)) st_SC =
       Some (G_MC, OP')"
    "G' = processResults log_program G_MC"
    by blast
  with m l show ?thesis
    by (simp add: log_run_def)
qed

theorem main_skips_unloadable_witness:
  "Modules (fst (load_modules (parseIRFile log_program) ''kanalyzer'' [''missing.bc'', ''a.bc'']
      (LoggedCtx_init, [Str ''Total '', Num 2, Str '' file(s)\<newline>'']))) = [(0, ''a.bc'')] \<and>
   snd (load_modules (parseIRFile log_program) ''kanalyzer'' [''missing.bc'', ''a.bc'']
      (LoggedCtx_init, [Str ''Total '', Num 2, Str '' file(s)\<newline>''])) =
     [Str ''Total '', Num 2, Str '' file(s)\<newline>''] @ load_error ''kanalyzer'' ''missing.bc'' \<and>
   map_option (\<lambda>(G, OP). Log G)
     (main log_program Map.empty ''/opt/crix/kanalyzer'' ''kanalyzer'' [''missing.bc'', ''a.bc'']
        False True (LoggedCtx_init, [])) =
     Some [''TypeInitializer'', ''BuildTypeStructMap'', ''CallGraph'', ''PointerAnalysis'',
           ''SecurityChecks'', ''MissingChecks'', ''processResults''] \<and>
   map_option (\<lambda>(G, OP). Log G)
     (main log_program Map.empty ''/opt/crix/kanalyzer'' ''kanalyzer'' [''a.bc'']
        False True (LoggedCtx_init, [])) =
     Some [''TypeInitializer'', ''BuildTypeStructMap'', ''CallGraph'', ''PointerAnalysis'',
           ''SecurityChecks'', ''MissingChecks'', ''processResults'']"
proof -
  obtain G' OP' where
    m: "main log_program Map.empty ''/opt/crix/kanalyzer'' ''kanalyzer'' [''missing.bc'', ''a.bc'']
       False True (LoggedCtx_init, []) = Some (G', OP')" and
    l: "Log G' = [''TypeInitializer'', ''BuildTypeStructMap'', ''CallGraph'', ''PointerAnalysis'',
          ''SecurityChecks'', ''MissingChecks'', ''processResults'']"
    by (rule log_run_Some)
  have f: "filter (\<lambda>f. parseIRFile log_program f \<noteq> None) [''missing.bc'', ''a.bc''] = [''a.bc'']"
    "filter (\<lambda>f. parseIRFile log_program f = None) [''missing.bc'', ''a.bc''] = [''missing.bc'']"
    "loaded (parseIRFile log_program) [''missing.bc'', ''a.bc''] = [(0, ''a.bc'')]"
    by (simp_all add: log_program_def loaded_def List.map_filter_simps strdup_def)
  have i: "Modules LoggedCtx_init = []"
    by (simp add: LoggedCtx_init_def)
  note t = main_skips_unloadable
    [where prog = log_program and ?argv0.0 = "''kanalyzer''"
       and InputFilenames = "[''missing.bc'', ''a.bc'']" and GlobalCtx = LoggedCtx_init
       and ?OP0.0 = "[Str ''Total '', Num 2, Str '' file(s)\<newline>'']" and fs = Map.empty
       and exepath = "''/opt/crix/kanalyzer''" and SecurityChecks = False
       and MissingChecks = True and OP = "[]" and GlobalCtx' = G' and OP' = OP']
  from t have mods: "Modules (fst (load_modules (parseIRFile log_program) ''kanalyzer''
      [''missing.bc'', ''a.bc'']
      (LoggedCtx_init, [Str ''Total '', Num 2, Str '' file(s)\<newline>'']))) = [(0, ''a.bc'')]"
    unfolding f i by simp
  from t have diag: "snd (load_modules (parseIRFile log_program) ''kanalyzer''
      [''missing.bc'', ''a.bc''] (LoggedCtx_init, [Str ''Total '', Num 2, Str '' file(s)\<newline>''])) =
     [Str ''Total '', Num 2, Str '' file(s)\<newline>''] @ load_error ''kanalyzer'' ''missing.bc''"
    unfolding f by simp
  from t m obtain G_MC where pr: "G' = processResults log_program G_MC"
    by auto
  from t have "map_option fst
      (main log_program Map.empty ''/opt/crix/kanalyzer'' ''kanalyzer'' [''a.bc'']
         False True (LoggedCtx_init, [])) = Some G'"
    unfolding f m by simp
  then have same: "map_option (\<lambda>(G, OP). Log G)
     (main log_program Map.empty ''/opt/crix/kanalyzer'' ''kanalyzer'' [''a.bc'']
        False True (LoggedCtx_init, [])) = Some (Log G')"
    by (auto simp: map_option_case split: option.splits)
  from mods diag same m l pr show ?thesis
    by simp
qed



end
